theory Spec2Isabelle
  imports Complex_Main
begin

section \<open>Floating-point values\<close>

text \<open>
  The notebook computes with numpy float64 arrays and Python floats. A value is modelled
  as a real number or one of the three special values of IEEE 754 arithmetic. The
  operations of this section are exact on finite values: a finite result is the exact real
  result, so there is no rounding, no overflow (a product of two finite values is never
  inf) and no underflow (a product of two nonzero values is never 0); and the two zeros
  are identified (a zero divisor counts as +0). What is kept is what decides the edge
  cases of the code: numpy does not raise on a division by zero, it yields inf (x/0, x
  nonzero) or nan (0/0) and carries on, and every comparison with nan is false. A
  property proved with these operations is a property of the program in exact arithmetic;
  the rounding of binary64, with its overflow and underflow, is defined in a section of
  its own below, and the solver is run with it there.
\<close>

datatype fl = Fin real | PInf | NInf | NaN

instantiation fl :: "{zero,one,plus,uminus,times,divide,ord}"
begin

definition zero_fl :: fl where
  "zero_fl = Fin 0"

definition one_fl :: fl where
  "one_fl = Fin 1"

fun plus_fl :: "fl \<Rightarrow> fl \<Rightarrow> fl" where
  "plus_fl (Fin a) (Fin b) = Fin (a + b)"
| "plus_fl NaN _ = NaN"
| "plus_fl _ NaN = NaN"
| "plus_fl PInf NInf = NaN"
| "plus_fl NInf PInf = NaN"
| "plus_fl PInf _ = PInf"
| "plus_fl _ PInf = PInf"
| "plus_fl NInf _ = NInf"
| "plus_fl _ NInf = NInf"

fun uminus_fl :: "fl \<Rightarrow> fl" where
  "uminus_fl (Fin a) = Fin (- a)"
| "uminus_fl PInf = NInf"
| "uminus_fl NInf = PInf"
| "uminus_fl NaN = NaN"

fun times_fl :: "fl \<Rightarrow> fl \<Rightarrow> fl" where
  "times_fl (Fin a) (Fin b) = Fin (a * b)"
| "times_fl NaN _ = NaN"
| "times_fl _ NaN = NaN"
| "times_fl (Fin a) PInf = (if a = 0 then NaN else if 0 < a then PInf else NInf)"
| "times_fl (Fin a) NInf = (if a = 0 then NaN else if 0 < a then NInf else PInf)"
| "times_fl PInf (Fin b) = (if b = 0 then NaN else if 0 < b then PInf else NInf)"
| "times_fl NInf (Fin b) = (if b = 0 then NaN else if 0 < b then NInf else PInf)"
| "times_fl PInf PInf = PInf"
| "times_fl PInf NInf = NInf"
| "times_fl NInf PInf = NInf"
| "times_fl NInf NInf = PInf"

fun divide_fl :: "fl \<Rightarrow> fl \<Rightarrow> fl" where
  "divide_fl (Fin a) (Fin b) =
     (if b = 0 then (if a = 0 then NaN else if 0 < a then PInf else NInf)
      else Fin (a / b))"
| "divide_fl NaN _ = NaN"
| "divide_fl _ NaN = NaN"
| "divide_fl (Fin a) PInf = Fin 0"
| "divide_fl (Fin a) NInf = Fin 0"
| "divide_fl PInf (Fin b) = (if 0 \<le> b then PInf else NInf)"
| "divide_fl NInf (Fin b) = (if 0 \<le> b then NInf else PInf)"
| "divide_fl PInf PInf = NaN"
| "divide_fl PInf NInf = NaN"
| "divide_fl NInf PInf = NaN"
| "divide_fl NInf NInf = NaN"

fun less_fl :: "fl \<Rightarrow> fl \<Rightarrow> bool" where
  "less_fl (Fin a) (Fin b) = (a < b)"
| "less_fl NaN _ = False"
| "less_fl _ NaN = False"
| "less_fl _ NInf = False"
| "less_fl PInf _ = False"
| "less_fl NInf _ = True"
| "less_fl _ PInf = True"

fun less_eq_fl :: "fl \<Rightarrow> fl \<Rightarrow> bool" where
  "less_eq_fl (Fin a) (Fin b) = (a \<le> b)"
| "less_eq_fl NaN _ = False"
| "less_eq_fl _ NaN = False"
| "less_eq_fl NInf _ = True"
| "less_eq_fl _ PInf = True"
| "less_eq_fl _ NInf = False"
| "less_eq_fl PInf _ = False"

instance ..

end

instantiation fl :: "{minus,inverse}"
begin

definition minus_fl :: "fl \<Rightarrow> fl \<Rightarrow> fl" where
  "minus_fl a b = a + (- b)"

definition inverse_fl :: "fl \<Rightarrow> fl" where
  "inverse_fl a = divide (Fin 1) a"

instance ..

end

text \<open>
  Addition with the special values is still associative and commutative with unit 0 (nan
  absorbs, and inf plus -inf is nan in whatever order), so \<open>np.sum\<close> is the sum of a list.
\<close>

lemma fl_add_assoc: "(x + y) + z = x + (y + z)" for x y z :: fl
  by (cases x; cases y; cases z; simp)

lemma fl_add_commute: "x + y = y + x" for x y :: fl
  by (cases x; cases y; simp)

lemma fl_add_zero: "0 + x = x" for x :: fl
  by (cases x; simp add: zero_fl_def)

instance fl :: comm_monoid_add
  by standard (rule fl_add_assoc, rule fl_add_commute, rule fl_add_zero)

text \<open>\<open>np.sqrt\<close>: nan (with a warning, no exception) on a negative argument.\<close>

fun np_sqrt :: "fl \<Rightarrow> fl" where
  "np_sqrt (Fin a) = (if a < 0 then NaN else Fin (sqrt a))"
| "np_sqrt PInf = PInf"
| "np_sqrt NInf = NaN"
| "np_sqrt NaN = NaN"

section \<open>Arrays\<close>

text \<open>
  A one-dimensional array is a list, a two-dimensional array the list of its rows. The
  helpers are polymorphic so that the same functions run on \<^typ>\<open>fl\<close> (the program)
  and on \<^typ>\<open>real\<close> (the exact arithmetic the finite case agrees with). The list of
  rows does not record a column count of its own, so the empty list stands for the array
  of shape (0, 0), and an array of shape (0, p) with \<open>p > 0\<close> has no counterpart here:
  the arrays covered are those with at least one row, and the one of shape (0, 0).
\<close>

type_synonym vec = "fl list"
type_synonym mat = "fl list list"

text \<open>\<open>x.shape[1]\<close>, read off the first row; 0 for the array of shape (0, 0).\<close>

definition ncols :: "'a list list \<Rightarrow> nat" where
  "ncols A = (case A of [] \<Rightarrow> 0 | r # _ \<Rightarrow> length r)"

text \<open>
  \<open>A.T\<close> is \<^const>\<open>transpose\<close> of the list library: on a rectangular array with at
  least one row it is the list of the columns.
\<close>

text \<open>\<open>np.dot\<close> of two vectors, and of a matrix and a vector.\<close>

definition dot :: "'a::{comm_monoid_add,times} list \<Rightarrow> 'a list \<Rightarrow> 'a" where
  "dot a b = sum_list (map2 (*) a b)"

definition mv :: "'a::{comm_monoid_add,times} list list \<Rightarrow> 'a list \<Rightarrow> 'a list" where
  "mv A w = map (\<lambda>r. dot r w) A"

text \<open>\<open>np.sum(v**2)\<close>.\<close>

definition sumsq :: "'a::{comm_monoid_add,times} list \<Rightarrow> 'a" where
  "sumsq w = sum_list (map (\<lambda>a. a * a) w)"

text \<open>The embedding of exact data into arrays of floats.\<close>

definition emb :: "real list list \<Rightarrow> mat" where
  "emb A = map (map Fin) A"

section \<open>The ridge solver\<close>

text \<open>
  \<open>np.linalg.svd(x, 0)\<close> is numpy's; it is a parameter of the model, a function from
  the design matrix to the triple \<open>(u, s, vt)\<close> or to the exception it raises (numpy
  raises LinAlgError when the decomposition does not converge, as on a matrix with a nan
  or inf entry). Python exceptions are values of \<open>error\<close>; one raised by the
  decomposition is not caught by the code and is the outcome of the call. numpy raises
  ValueError from \<open>np.dot(u.T, y)\<close> when \<open>y\<close> does not have as many entries as \<open>u\<close>
  has rows; given that and the shapes numpy's decomposition has, no later operation has
  mismatched shapes.
\<close>

datatype error = ZeroDivisionError | ValueError | UnboundLocalError | LinAlgError

type_synonym svd_fn = "mat \<Rightarrow> error + (mat \<times> vec \<times> mat)"

text \<open>
  \<^verbatim>\<open>
  def ridge(x, y, f):
      u, s, vt = np.linalg.svd(x, 0)
      v = vt.T
      g = s / (s**2 + f)
      b = np.dot(v, np.dot(u.T, y) * g)
      return b
  \<close>
\<close>

definition ridge :: "svd_fn \<Rightarrow> mat \<Rightarrow> vec \<Rightarrow> fl \<Rightarrow> error + vec" where
  "ridge svd x y f =
     (case svd x of
        Inl e \<Rightarrow> Inl e
      | Inr (u, s, vt) \<Rightarrow>
          let v = transpose vt;
              g = map (\<lambda>si. si / (si * si + f)) s
          in if length y \<noteq> length u then Inl ValueError
             else Inr (mv v (map2 (*) (mv (transpose u) y) g)))"

section \<open>The penalty tuner\<close>

text \<open>
  The closure \<open>fit\<close> of \<open>tuneridge\<close>, with the variables it captures as parameters:
  \<^verbatim>\<open>
      def fit(lam):
          g = s / (s**2 + lam)
          return np.dot(v, np.dot(u.T, y) * g)
  \<close>
\<close>

definition fit :: "mat \<Rightarrow> vec \<Rightarrow> mat \<Rightarrow> vec \<Rightarrow> fl \<Rightarrow> vec" where
  "fit u s v y lam =
     (let g = map (\<lambda>si. si / (si * si + lam)) s
      in mv v (map2 (*) (mv (transpose u) y) g))"

text \<open>What the loop reads and never assigns.\<close>

record tune_env =
  env_x :: mat
  env_y :: vec
  env_n :: nat
  env_p :: nat
  env_a :: fl
  env_b :: fl
  env_u :: mat
  env_s :: vec
  env_v :: mat

definition tune_env_of :: "mat \<Rightarrow> vec \<Rightarrow> fl \<Rightarrow> mat \<Rightarrow> vec \<Rightarrow> mat \<Rightarrow> tune_env" where
  "tune_env_of x y b u s vt =
     \<lparr>env_x = x, env_y = y, env_n = length x, env_p = ncols x,
      env_a = Fin (real (ncols x) / 2), env_b = b,
      env_u = u, env_s = s, env_v = transpose vt\<rparr>"

text \<open>
  One pass through the loop body up to the refit (lines 97 to 107): the new
  \<open>(sigma2, lam, bhat1)\<close> from the current \<open>(bhat, lam)\<close>.
  \<^verbatim>\<open>
          resid = y - np.dot(x, bhat)
          rss = np.sum(resid**2)
          bss = np.sum(bhat**2)
          sigma2 = (rss + lam*bss) / (n + p + 2)
          lam = (p + 2*a - 2) / (bss/sigma2 + 2*b)
          bhat1 = fit(lam)
  \<close>
\<close>

definition tune_body :: "tune_env \<Rightarrow> vec \<Rightarrow> fl \<Rightarrow> fl \<times> fl \<times> vec" where
  "tune_body E bhat lam =
     (let resid = map2 (-) (env_y E) (mv (env_x E) bhat);
          rss = sumsq resid;
          bss = sumsq bhat;
          sigma2 = (rss + lam * bss) / Fin (real (env_n E + env_p E + 2));
          lam1 = (Fin (real (env_p E)) + Fin 2 * env_a E - Fin 2)
                   / (bss / sigma2 + Fin 2 * env_b E);
          bhat1 = fit (env_u E) (env_s E) (env_v E) (env_y E) lam1
      in (sigma2, lam1, bhat1))"

text \<open>The test of line 108, \<open>np.sum((bhat1 - bhat)**2) < 1e-4\<close>.\<close>

definition converged :: "vec \<Rightarrow> vec \<Rightarrow> bool" where
  "converged bhat1 bhat = (sumsq (map2 (-) bhat1 bhat) < Fin (1 / 10000))"

text \<open>
  The \<open>for\<close> loop with \<open>k\<close> passes left. \<open>sigma2\<close> is not bound before the first pass
  (\<open>None\<close>). On \<open>break\<close> the assignment \<open>bhat = bhat1\<close> of line 110 has not run.
  \<^verbatim>\<open>
      for itr in range(100):
          ...
          bhat1 = fit(lam)
          if np.sum((bhat1 - bhat)**2) < 1e-4:
              break
          bhat = bhat1
      return bhat, lam, sigma2
  \<close>
\<close>

fun tune_loop :: "tune_env \<Rightarrow> nat \<Rightarrow> vec \<Rightarrow> fl \<Rightarrow> fl option \<Rightarrow> vec \<times> fl \<times> fl option" where
  "tune_loop E 0 bhat lam sigma2 = (bhat, lam, sigma2)"
| "tune_loop E (Suc k) bhat lam sigma2 =
     (case tune_body E bhat lam of (sigma2', lam1, bhat1) \<Rightarrow>
        if converged bhat1 bhat then (bhat, lam1, Some sigma2')
        else tune_loop E k bhat1 lam1 (Some sigma2'))"

text \<open>
  The argument \<open>r2\<close> is a scalar of one of two kinds, and \<open>1/r2\<close> depends on the kind:
  for a Python float (the literals of the notebook's last cell) the division raises
  ZeroDivisionError at zero; for a numpy float64 (what \<open>test_tuneridge1\<close> passes, a
  quotient of \<open>np.var\<close> values) it follows numpy and yields inf at zero, with a warning
  and no exception. Everything after it is numpy's arithmetic: \<open>np.sqrt\<close> returns a
  numpy scalar, and the outer division follows numpy.
\<close>

datatype scalar = PyFloat fl | NpFloat64 fl

fun value_of :: "scalar \<Rightarrow> fl" where
  "value_of (PyFloat v) = v"
| "value_of (NpFloat64 v) = v"

text \<open>\<open>1/r2\<close>.\<close>

fun one_over :: "scalar \<Rightarrow> error + fl" where
  "one_over (PyFloat v) = (if v = Fin 0 then Inl ZeroDivisionError else Inr (Fin 1 / v))"
| "one_over (NpFloat64 v) = Inr (Fin 1 / v)"

text \<open>
  \<^verbatim>\<open>
  def tuneridge(x, y, r2):
      n, p = x.shape                  # in tune_env_of
      a = p / 2                       # in tune_env_of
      b = 1 / np.sqrt(1/r2 - 1)
      u, s, vt = np.linalg.svd(x, 0)
      v = vt.T
      ...
      lam = 1.
      bhat = fit(lam)
  \<close>
\<close>

definition tuneridge :: "svd_fn \<Rightarrow> mat \<Rightarrow> vec \<Rightarrow> scalar \<Rightarrow> error + (vec \<times> fl \<times> fl)" where
  "tuneridge svd x y r2 =
     (case one_over r2 of
        Inl e \<Rightarrow> Inl e
      | Inr q \<Rightarrow>
          let b = Fin 1 / np_sqrt (q - Fin 1)
          in (case svd x of
                Inl e \<Rightarrow> Inl e
              | Inr (u, s, vt) \<Rightarrow>
                  if length y \<noteq> length u then Inl ValueError
                  else
                    let E = tune_env_of x y b u s vt;
                        lam = Fin 1;
                        bhat = fit u s (transpose vt) y lam
                    in (case tune_loop E 100 bhat lam None of
                          (bhat', lam', None) \<Rightarrow> Inl UnboundLocalError
                        | (bhat', lam', Some sigma2') \<Rightarrow> Inr (bhat', lam', sigma2'))))"

section \<open>The significance computation\<close>

text \<open>
  \<open>np.eye(q)\<close>, the sum of two matrices, a scalar times a matrix, and the matrix product
  (used to state what a solve returns).
\<close>

definition np_eye :: "nat \<Rightarrow> 'a::{zero,one} list list" where
  "np_eye q = map (\<lambda>i. map (\<lambda>j. if i = j then 1 else 0) [0..<q]) [0..<q]"

definition madd :: "'a::plus list list \<Rightarrow> 'a list list \<Rightarrow> 'a list list" where
  "madd A B = map2 (map2 (+)) A B"

definition smul :: "'a::times \<Rightarrow> 'a list list \<Rightarrow> 'a list list" where
  "smul c A = map (map ((*) c)) A"

definition mm :: "'a::{comm_monoid_add,times} list list \<Rightarrow> 'a list list \<Rightarrow> 'a list list" where
  "mm A B = map (\<lambda>r. map (\<lambda>c. dot r c) (transpose B)) A"

text \<open>
  The four lines of the notebook's second \<open>fit\<close> that compute the statistic and the
  p-value from a result \<open>(b, lam, s2)\<close> of \<open>tuneridge\<close> and the globals \<open>xtx\<close> (of shape
  \<open>q\<close> by \<open>q\<close>) and \<open>q\<close>. \<open>np.linalg.solve\<close>, with a matrix and with a vector on the
  right, and the distribution function \<open>chi2(d).cdf\<close> of scipy are parameters; a solve
  raises LinAlgError on a singular matrix.
  \<^verbatim>\<open>
        H = xtx + lam*np.eye(q)
        V = s2 * np.linalg.solve(H, np.linalg.solve(H, xtx).T)
        cs = np.dot(b, np.linalg.solve(V, b))
        pv = 1 - chi2(len(b)).cdf(cs)
  \<close>
\<close>

definition significance ::
  "(mat \<Rightarrow> mat \<Rightarrow> error + mat) \<Rightarrow> (mat \<Rightarrow> vec \<Rightarrow> error + vec) \<Rightarrow> (nat \<Rightarrow> fl \<Rightarrow> fl)
     \<Rightarrow> mat \<Rightarrow> nat \<Rightarrow> vec \<Rightarrow> fl \<Rightarrow> fl \<Rightarrow> error + (fl \<times> fl)" where
  "significance solve solve_v chi2_cdf xtx q b lam s2 =
     (let H = madd xtx (smul lam (np_eye q))
      in case solve H xtx of
           Inl e \<Rightarrow> Inl e
         | Inr S1 \<Rightarrow>
             (case solve H (transpose S1) of
                Inl e \<Rightarrow> Inl e
              | Inr S2 \<Rightarrow>
                  let V = smul s2 S2
                  in (case solve_v V b of
                        Inl e \<Rightarrow> Inl e
                      | Inr z \<Rightarrow>
                          let cs = dot b z;
                              pv = Fin 1 - chi2_cdf (length b) cs
                          in Inr (cs, pv))))"

section \<open>The solver in binary64 arithmetic\<close>

text \<open>
  numpy's float64 is the binary64 format of IEEE 754. The result of an operation on finite
  values is the exact result \<open>r\<close> rounded to the nearest value of the format, a tie going
  to the value with the even significand. With \<open>e\<close> the exponent of \<open>r\<close> (the largest
  \<open>e\<close> with \<open>2^e \<le> |r|\<close>, and \<open>-1022\<close> throughout the subnormal range below
  \<open>2^-1022\<close>), the values of the format near \<open>r\<close> are the integer multiples of
  \<open>2^(e - 52)\<close>. A result that rounds to a magnitude of \<open>2^1024\<close> or more is inf
  (overflow); a nonzero result of magnitude below \<open>2^-1075\<close> rounds to 0 (underflow).
\<close>

definition round_even :: "real \<Rightarrow> int" where
  "round_even q =
     (let f = \<lfloor>q\<rfloor>
      in if q - of_int f < 1/2 \<or> (q - of_int f = 1/2 \<and> even f) then f else f + 1)"

definition binary64 :: "real \<Rightarrow> fl" where
  "binary64 r =
     (if r = 0 then Fin 0
      else
        let e = max \<lfloor>log 2 \<bar>r\<bar>\<rfloor> (- 1022);
            ulp = 2 powr (of_int e - 52);
            v = of_int (round_even (r / ulp)) * ulp
        in if 2 ^ 1024 \<le> \<bar>v\<bar> then (if 0 < r then PInf else NInf) else Fin v)"

text \<open>The rounding of the result of an operation; inf and nan stay as they are.\<close>

definition rnd :: "fl \<Rightarrow> fl" where
  "rnd a = (case a of Fin r \<Rightarrow> binary64 r | _ \<Rightarrow> a)"

text \<open>
  \<open>ridge\<close> with the result of every operation passed through \<open>rd\<close>: with \<open>rd\<close> the
  identity this is \<^const>\<open>ridge\<close>, with \<open>rd\<close> the rounding above it is the computation
  numpy performs. (\<open>s**2\<close> is the product \<open>s*s\<close>. The order in which \<open>np.dot\<close> adds the
  products is left to the BLAS; they are added here from the last to the first, and the
  example below has one product only.)
\<close>

definition dot_rd :: "(fl \<Rightarrow> fl) \<Rightarrow> vec \<Rightarrow> vec \<Rightarrow> fl" where
  "dot_rd rd a b = foldr (\<lambda>c acc. rd (c + acc)) (map2 (\<lambda>p q. rd (p * q)) a b) (Fin 0)"

definition mv_rd :: "(fl \<Rightarrow> fl) \<Rightarrow> mat \<Rightarrow> vec \<Rightarrow> vec" where
  "mv_rd rd A w = map (\<lambda>r. dot_rd rd r w) A"

definition ridge_rd :: "(fl \<Rightarrow> fl) \<Rightarrow> svd_fn \<Rightarrow> mat \<Rightarrow> vec \<Rightarrow> fl \<Rightarrow> error + vec" where
  "ridge_rd rd svd x y f =
     (case svd x of
        Inl e \<Rightarrow> Inl e
      | Inr (u, s, vt) \<Rightarrow>
          let v = transpose vt;
              g = map (\<lambda>si. rd (si / rd (rd (si * si) + f))) s
          in if length y \<noteq> length u then Inl ValueError
             else Inr (mv_rd rd v (map2 (\<lambda>c d. rd (c * d)) (mv_rd rd (transpose u) y) g)))"

section \<open>Notions used to state the properties\<close>

text \<open>
  The loop variables \<open>(bhat, lam)\<close> after \<open>k\<close> passes that did not break, the values
  \<open>(sigma2, lam, bhat1)\<close> computed in pass \<open>k + 1\<close>, and whether the test of that pass
  is met.
\<close>

fun tune_iter :: "tune_env \<Rightarrow> vec \<Rightarrow> fl \<Rightarrow> nat \<Rightarrow> vec \<times> fl" where
  "tune_iter E bhat lam 0 = (bhat, lam)"
| "tune_iter E bhat lam (Suc k) =
     (case tune_body E bhat lam of (sigma2, lam1, bhat1) \<Rightarrow> tune_iter E bhat1 lam1 k)"

definition pass_at :: "tune_env \<Rightarrow> vec \<Rightarrow> fl \<Rightarrow> nat \<Rightarrow> fl \<times> fl \<times> vec" where
  "pass_at E bhat lam k = (case tune_iter E bhat lam k of (b, l) \<Rightarrow> tune_body E b l)"

definition conv_at :: "tune_env \<Rightarrow> vec \<Rightarrow> fl \<Rightarrow> nat \<Rightarrow> bool" where
  "conv_at E bhat lam k =
     (case tune_iter E bhat lam k of (b, l) \<Rightarrow>
        case tune_body E b l of (sigma2, lam1, bhat1) \<Rightarrow> converged bhat1 b)"

text \<open>An array of \<open>n\<close> rows and \<open>k\<close> columns.\<close>

definition rect :: "nat \<Rightarrow> nat \<Rightarrow> 'a list list \<Rightarrow> bool" where
  "rect n k A = (length A = n \<and> list_all (\<lambda>r. length r = k) A)"

text \<open>The solve in exact real arithmetic, which the program agrees with on finite values.\<close>

definition fit_exact :: "real list list \<Rightarrow> real list \<Rightarrow> real list list \<Rightarrow> real list \<Rightarrow> real \<Rightarrow> real list" where
  "fit_exact U S VT y l =
     mv (transpose VT) (map2 (*) (mv (transpose U) y) (map (\<lambda>s. s / (s * s + l)) S))"

text \<open>The Euclidean norm of a coefficient vector.\<close>

definition enorm :: "fl list \<Rightarrow> fl" where
  "enorm b = np_sqrt (sumsq b)"

text \<open>
  What numpy documents of \<open>u, s, vt = np.linalg.svd(x, 0)\<close> for an \<open>n\<close> by \<open>p\<close> matrix
  of finite entries, with \<open>k = min(n, p)\<close>: \<open>u\<close> is \<open>n\<close> by \<open>k\<close> with orthonormal columns,
  \<open>vt\<close> is \<open>k\<close> by \<open>p\<close> with orthonormal rows, the \<open>k\<close> singular values are not negative,
  and \<open>x = u diag(s) vt\<close>. Stated in exact arithmetic.
\<close>

definition orthonormal_rows :: "real list list \<Rightarrow> bool" where
  "orthonormal_rows A =
     (\<forall>a<length A. \<forall>b<length A. dot (A ! a) (A ! b) = (if a = b then 1 else 0))"

definition thin_svd :: "real list list \<Rightarrow> real list list \<Rightarrow> real list \<Rightarrow> real list list \<Rightarrow> bool" where
  "thin_svd X U S VT =
     (let n = length X; p = ncols X; k = min n p
      in rect n p X \<and> rect n k U \<and> length S = k \<and> rect k p VT
         \<and> orthonormal_rows (transpose U) \<and> orthonormal_rows VT
         \<and> (\<forall>i<n. \<forall>j<p. X ! i ! j = (\<Sum>l<k. U ! i ! l * S ! l * VT ! l ! j))
         \<and> (\<forall>l<k. 0 \<le> S ! l))"

text \<open>Full column rank: only the zero vector is sent to zero.\<close>

definition full_col_rank :: "real list list \<Rightarrow> bool" where
  "full_col_rank X =
     (\<forall>w. length w = ncols X \<longrightarrow> (\<forall>e\<in>set (mv X w). e = 0) \<longrightarrow> (\<forall>e\<in>set w. e = 0))"

section \<open>The tuning iteration in the words of the specification\<close>

text \<open>
  Section 4 of the specification: the solve is \<open>V diag(S/(S^2 + lam)) U^T y\<close>; the shape
  parameter is \<open>p/2\<close> and the scale parameter \<open>1/sqrt(1/r2 - 1)\<close>; the iteration starts
  from penalty 1 and the solve at 1, and each step computes \<open>rss\<close> and \<open>bss\<close> from the
  current coefficients, then \<open>sigma2\<close> with the penalty not yet updated, then the new
  penalty, then the refit. \<open>spec_tuning ... k\<close> is the triple after \<open>k\<close> steps (no
  variance before the first).
\<close>

definition spec_solve :: "mat \<times> vec \<times> mat \<Rightarrow> vec \<Rightarrow> fl \<Rightarrow> vec" where
  "spec_solve D y lam =
     (case D of (u, s, vt) \<Rightarrow>
        mv (transpose vt) (map2 (*) (map (\<lambda>si. si / (si * si + lam)) s) (mv (transpose u) y)))"

definition spec_shape :: "nat \<Rightarrow> fl" where
  "spec_shape p = Fin (real p / 2)"

definition spec_scale :: "fl \<Rightarrow> fl" where
  "spec_scale r2 = Fin 1 / np_sqrt (Fin 1 / r2 - Fin 1)"

fun spec_tuning :: "mat \<Rightarrow> vec \<Rightarrow> mat \<times> vec \<times> mat \<Rightarrow> fl \<Rightarrow> nat \<Rightarrow> vec \<times> fl \<times> fl option" where
  "spec_tuning x y D r2 0 = (spec_solve D y (Fin 1), Fin 1, None)"
| "spec_tuning x y D r2 (Suc k) =
     (case spec_tuning x y D r2 k of (bhat, lam, _) \<Rightarrow>
        let n = length x;
            p = ncols x;
            rss = sumsq (map2 (-) y (mv x bhat));
            bss = sumsq bhat;
            sigma2 = (rss + lam * bss) / Fin (real (n + p + 2));
            lam' = (Fin (real p) + Fin 2 * spec_shape p - Fin 2)
                     / (bss / sigma2 + Fin 2 * spec_scale r2)
        in (spec_solve D y lam', lam', Some sigma2))"

section \<open>Concrete inputs\<close>

text \<open>
  What \<open>np.linalg.svd(x, 0)\<close> does on the matrices used in the examples below: the
  decompositions of the 2 by 2 identity, of the row \<open>(1 0)\<close>, of the column \<open>(1 0)\<close>
  and of the 1 by 1 matrices \<open>(1)\<close>, \<open>(0)\<close> and \<open>(2^-600)\<close>, and the LinAlgError on the
  1 by 1 matrix \<open>(nan)\<close>.
  The table is read at these matrices only.
\<close>

definition svd_tab :: svd_fn where
  "svd_tab x =
     (if x = [[Fin 1, Fin 0], [Fin 0, Fin 1]]
        then Inr ([[Fin 1, Fin 0], [Fin 0, Fin 1]], [Fin 1, Fin 1], [[Fin 1, Fin 0], [Fin 0, Fin 1]])
      else if x = [[Fin 1, Fin 0]] then Inr ([[Fin 1]], [Fin 1], [[Fin 1, Fin 0]])
      else if x = [[Fin 1], [Fin 0]] then Inr ([[Fin 1], [Fin 0]], [Fin 1], [[Fin 1]])
      else if x = [[Fin 1]] then Inr ([[Fin 1]], [Fin 1], [[Fin 1]])
      else if x = [[Fin 0]] then Inr ([[Fin 1]], [Fin 0], [[Fin 1]])
      else if x = [[Fin (1 / 2 ^ 600)]] then Inr ([[Fin 1]], [Fin (1 / 2 ^ 600)], [[Fin 1]])
      else Inl LinAlgError)"

text \<open>\<open>np.linalg.solve\<close> on 1 by 1 systems, with a matrix and with a vector on the right.\<close>

fun solve_1x1 :: "mat \<Rightarrow> mat \<Rightarrow> error + mat" where
  "solve_1x1 [[a]] [[c]] = (if a = Fin 0 then Inl LinAlgError else Inr [[c / a]])"
| "solve_1x1 _ _ = Inl LinAlgError"

fun solve_v_1x1 :: "mat \<Rightarrow> vec \<Rightarrow> error + vec" where
  "solve_v_1x1 [[a]] [c] = (if a = Fin 0 then Inl LinAlgError else Inr [c / a])"
| "solve_v_1x1 _ _ = Inl LinAlgError"

section \<open>Arithmetic on finite values\<close>

lemma minus_Fin [simp]: "Fin a - Fin b = Fin (a - b)"
  by (simp add: minus_fl_def)

lemma times_NaN_right [simp]: "a * NaN = NaN"
  by (cases a) simp_all

lemma plus_NaN_right [simp]: "a + NaN = NaN"
  by (cases a) simp_all

lemma sum_list_Fin: "sum_list (map Fin xs) = Fin (sum_list xs)"
  by (induction xs) (simp_all add: zero_fl_def)

lemma sum_list_NaN: "NaN \<in> set xs \<Longrightarrow> sum_list xs = NaN"
  by (induction xs) auto

lemma map2_maps: "map2 f (map g a) (map h b) = map2 (\<lambda>x y. f (g x) (h y)) a b"
  by (induction a b rule: list_induct2') simp_all

lemma map_map2: "map g (map2 f a b) = map2 (\<lambda>x y. g (f x y)) a b"
  by (induction a b rule: list_induct2') simp_all

lemma mul_Fin: "map2 (*) (map Fin a) (map Fin b) = map Fin (map2 (*) a b)"
  by (simp only: map2_maps map_map2 times_fl.simps)

lemma sub_Fin: "map2 (-) (map Fin a) (map Fin b) = map Fin (map2 (-) a b)"
  by (simp only: map2_maps map_map2 minus_Fin)

lemma dot_Fin: "dot (map Fin a) (map Fin b) = Fin (dot a b)"
  by (simp only: dot_def mul_Fin sum_list_Fin)

lemma mv_Fin: "mv (emb A) (map Fin w) = map Fin (mv A w)"
  by (simp add: mv_def emb_def dot_Fin)

lemma sumsq_Fin: "sumsq (map Fin w) = Fin (sumsq w)"
proof -
  have "map (\<lambda>a. a * a) (map Fin w) = map Fin (map (\<lambda>a. a * a) w)"
    by simp
  then show ?thesis
    unfolding sumsq_def by (simp only: sum_list_Fin)
qed

lemma transpose_emb: "transpose (emb A) = emb (transpose A)"
  by (simp add: emb_def transpose_map_map)

lemma shrink_Fin:
  assumes "\<forall>s\<in>set S. s * s + l \<noteq> 0"
  shows "map (\<lambda>si. si / (si * si + Fin l)) (map Fin S) = map Fin (map (\<lambda>s. s / (s * s + l)) S)"
  using assms by (induction S) simp_all

lemma fit_Fin:
  assumes "\<forall>s\<in>set S. s * s + l \<noteq> 0"
  shows "fit (emb U) (map Fin S) (transpose (emb VT)) (map Fin y) (Fin l)
         = map Fin (fit_exact U S VT y l)"
  unfolding fit_def fit_exact_def Let_def
  by (simp only: shrink_Fin[OF assms] transpose_emb mv_Fin mul_Fin)

section \<open>The loop, unrolled\<close>

lemma tune_loop_numeral:
  "tune_loop E (numeral n) bhat lam sigma2 =
     (case tune_body E bhat lam of (sigma2', lam1, bhat1) \<Rightarrow>
        if converged bhat1 bhat then (bhat, lam1, Some sigma2')
        else tune_loop E (pred_numeral n) bhat1 lam1 (Some sigma2'))"
  by (simp add: numeral_eq_Suc)

lemmas run_defs = tuneridge_def tune_env_of_def svd_tab_def ncols_def fit_def mv_def dot_def
  tune_body_def sumsq_def converged_def minus_fl_def Let_def ridge_def

lemma one_over_value:
  "r2 \<noteq> PyFloat (Fin 0) \<Longrightarrow> one_over r2 = Inr (Fin 1 / value_of r2)"
  by (cases r2) auto

lemma tuneridge_unfold:
  assumes "r2 \<noteq> PyFloat (Fin 0)" and "svd x = Inr (u, s, vt)" and "length y = length u"
  shows "tuneridge svd x y r2 =
      (case tune_loop (tune_env_of x y (Fin 1 / np_sqrt (Fin 1 / value_of r2 - Fin 1)) u s vt) 100
              (fit u s (transpose vt) y (Fin 1)) (Fin 1) None of
         (bhat', lam', None) \<Rightarrow> Inl UnboundLocalError
       | (bhat', lam', Some sigma2') \<Rightarrow> Inr (bhat', lam', sigma2'))"
  unfolding tuneridge_def one_over_value[OF assms(1)] assms(2) Let_def
  using assms(3) by simp

lemma tune_iter_Suc:
  "tune_iter E bhat lam (Suc k) =
     (case tune_iter E bhat lam k of (b, l) \<Rightarrow>
        case tune_body E b l of (sigma2, lam1, bhat1) \<Rightarrow> (bhat1, lam1))"
proof (induction k arbitrary: bhat lam)
  case 0
  then show ?case by (simp split: prod.splits)
next
  case (Suc k)
  obtain s2 l1 b1 where body: "tune_body E bhat lam = (s2, l1, b1)"
    by (cases "tune_body E bhat lam") auto
  have "tune_iter E bhat lam (Suc (Suc k)) = tune_iter E b1 l1 (Suc k)"
    using body by simp
  also have "\<dots> = (case tune_iter E b1 l1 k of (b, l) \<Rightarrow>
        case tune_body E b l of (sigma2, lam1, bhat1) \<Rightarrow> (bhat1, lam1))"
    by (rule Suc.IH)
  also have "tune_iter E b1 l1 k = tune_iter E bhat lam (Suc k)"
    using body by simp
  finally show ?case .
qed

lemma pass_at_shift:
  "tune_body E bhat lam = (sigma2, lam1, bhat1) \<Longrightarrow>
   pass_at E bhat lam (Suc k) = pass_at E bhat1 lam1 k"
  by (simp add: pass_at_def)

lemma conv_at_shift:
  "tune_body E bhat lam = (sigma2, lam1, bhat1) \<Longrightarrow>
   conv_at E bhat lam (Suc k) = conv_at E bhat1 lam1 k"
  by (simp add: conv_at_def)

lemma tune_loop_break:
  assumes "\<forall>i<j. \<not> conv_at E bhat lam i" "conv_at E bhat lam j" "j < k"
  shows "tune_loop E k bhat lam sigma2 =
           (fst (tune_iter E bhat lam j), fst (snd (pass_at E bhat lam j)),
            Some (fst (pass_at E bhat lam j)))"
  using assms
proof (induction k arbitrary: bhat lam sigma2 j)
  case 0
  then show ?case by simp
next
  case (Suc k)
  obtain s2 l1 b1 where body: "tune_body E bhat lam = (s2, l1, b1)"
    by (cases "tune_body E bhat lam") auto
  show ?case
  proof (cases j)
    case 0
    with Suc.prems(2) body show ?thesis
      by (simp add: conv_at_def pass_at_def)
  next
    case (Suc j')
    from Suc.prems(1) Suc have nc0: "\<not> conv_at E bhat lam 0" by blast
    then have nc: "\<not> converged b1 bhat"
      using body by (simp add: conv_at_def)
    have a: "\<forall>i<j'. \<not> conv_at E b1 l1 i"
    proof (intro allI impI)
      fix i assume "i < j'"
      then have "\<not> conv_at E bhat lam (Suc i)" using Suc.prems(1) Suc by simp
      then show "\<not> conv_at E b1 l1 i" using conv_at_shift[OF body] by simp
    qed
    have b: "conv_at E b1 l1 j'"
      using Suc.prems(2) Suc conv_at_shift[OF body] by simp
    have c: "j' < k" using Suc.prems(3) Suc by simp
    have "tune_loop E (Suc k) bhat lam sigma2 = tune_loop E k b1 l1 (Some s2)"
      using body nc by simp
    also have "\<dots> = (fst (tune_iter E b1 l1 j'), fst (snd (pass_at E b1 l1 j')),
            Some (fst (pass_at E b1 l1 j')))"
      by (rule Suc.IH[OF a b c])
    finally show ?thesis
      using Suc body pass_at_shift[OF body] by simp
  qed
qed

lemma tune_loop_exhaust:
  assumes "\<forall>i<Suc k. \<not> conv_at E bhat lam i"
  shows "tune_loop E (Suc k) bhat lam sigma2 =
           (fst (tune_iter E bhat lam (Suc k)), snd (tune_iter E bhat lam (Suc k)),
            Some (fst (pass_at E bhat lam k)))"
  using assms
proof (induction k arbitrary: bhat lam sigma2)
  case 0
  obtain s2 l1 b1 where body: "tune_body E bhat lam = (s2, l1, b1)"
    by (cases "tune_body E bhat lam") auto
  from 0 have "\<not> conv_at E bhat lam 0" by blast
  then have "\<not> converged b1 bhat" using body by (simp add: conv_at_def)
  then show ?case using body by (simp add: pass_at_def)
next
  case (Suc k)
  obtain s2 l1 b1 where body: "tune_body E bhat lam = (s2, l1, b1)"
    by (cases "tune_body E bhat lam") auto
  from Suc.prems have "\<not> conv_at E bhat lam 0" by blast
  then have nc: "\<not> converged b1 bhat" using body by (simp add: conv_at_def)
  have a: "\<forall>i<Suc k. \<not> conv_at E b1 l1 i"
  proof (intro allI impI)
    fix i assume "i < Suc k"
    then have "\<not> conv_at E bhat lam (Suc i)" using Suc.prems by simp
    then show "\<not> conv_at E b1 l1 i" using conv_at_shift[OF body] by simp
  qed
  have "tune_loop E (Suc (Suc k)) bhat lam sigma2 = tune_loop E (Suc k) b1 l1 (Some s2)"
    using body nc by simp
  also have "\<dots> = (fst (tune_iter E b1 l1 (Suc k)), snd (tune_iter E b1 l1 (Suc k)),
            Some (fst (pass_at E b1 l1 k)))"
    by (rule Suc.IH[OF a])
  finally show ?case
    using body pass_at_shift[OF body] by simp
qed



lemma tune_loop_binds_sigma2:
  "tune_loop E (Suc k) bhat lam sigma2 = (b, l, s) \<Longrightarrow> s \<noteq> None"
proof (induction k arbitrary: bhat lam sigma2)
  case 0
  then show ?case by (auto split: prod.splits if_splits)
next
  case (Suc k)
  obtain s2 l1 b1 where body: "tune_body E bhat lam = (s2, l1, b1)"
    by (cases "tune_body E bhat lam") auto
  show ?case
  proof (cases "converged b1 bhat")
    case True
    with Suc.prems body show ?thesis by auto
  next
    case False
    with Suc.prems body have "tune_loop E (Suc k) b1 l1 (Some s2) = (b, l, s)" by simp
    then show ?thesis by (rule Suc.IH)
  qed
qed

section \<open>Shapes\<close>

lemma rect_nth: "rect n k A \<Longrightarrow> i < n \<Longrightarrow> length (A ! i) = k"
  by (simp add: rect_def list_all_length)

lemma transpose_rect:
  assumes "rect n k A" and "0 < n"
  shows "transpose A = map (\<lambda>j. map (\<lambda>i. A ! i ! j) [0..<n]) [0..<k]"
proof -
  have len: "length A = n" using assms(1) by (simp add: rect_def)
  have "transpose A = map (\<lambda>j. map (\<lambda>i. A ! i ! j) [0..<length A]) [0..<k]"
  proof (rule transpose_rectangle)
    assume "A = []" with len assms(2) show "k = 0" by simp
  next
    fix i assume "i < length A"
    with len show "length (A ! i) = k" using rect_nth[OF assms(1)] by simp
  qed
  with len show ?thesis by simp
qed

lemma rect_transpose:
  assumes "rect n k A" and "0 < n"
  shows "rect k n (transpose A)"
  unfolding transpose_rect[OF assms] by (simp add: rect_def list_all_length)

lemma rect_emb [simp]: "rect n k (emb A) = rect n k A"
  by (simp add: rect_def emb_def list_all_length)

lemma length_mv [simp]: "length (mv A w) = length A"
  by (simp add: mv_def)

lemma dot_NaN:
  assumes "i < length r" "i < length w" "w ! i = NaN"
  shows "dot r w = NaN"
proof -
  have "(map2 (*) r w) ! i = NaN" using assms by simp
  moreover have "i < length (map2 (*) r w)" using assms by simp
  ultimately have "NaN \<in> set (map2 (*) r w)" by (metis nth_mem)
  then show ?thesis by (simp add: dot_def sum_list_NaN)
qed

section \<open>The closure and the standalone solver\<close>

text \<open>
  Claim C8. The closure \<open>fit\<close> of \<open>tuneridge\<close>, which reuses the decomposition computed
  once from \<open>x\<close>, returns the coefficient vector of the standalone \<open>ridge(x, y, lam)\<close>
  for every penalty \<open>lam\<close>; and this stays so however many solves came before: the
  refit of every pass of the loop is the standalone solve at that pass's penalty. (The
  decomposition is among the variables the loop reads and never assigns.)
\<close>

theorem fit_closure_eq_ridge:
  assumes "svd x = Inr (u, s, vt)" and "length y = length u"
  shows "ridge svd x y lam = Inr (fit u s (transpose vt) y lam) \<and>
         (\<forall>k. ridge svd x y (fst (snd (pass_at (tune_env_of x y b u s vt) bhat0 lam0 k)))
                = Inr (snd (snd (pass_at (tune_env_of x y b u s vt) bhat0 lam0 k))))"
proof -
  have r: "ridge svd x y l = Inr (fit u s (transpose vt) y l)" for l
    using assms by (simp add: ridge_def fit_def)
  have "snd (snd (tune_body (tune_env_of x y b u s vt) bh l))
        = fit u s (transpose vt) y (fst (snd (tune_body (tune_env_of x y b u s vt) bh l)))" for bh l
    by (simp add: tune_body_def tune_env_of_def Let_def)
  then have "snd (snd (pass_at (tune_env_of x y b u s vt) bhat0 lam0 k))
        = fit u s (transpose vt) y (fst (snd (pass_at (tune_env_of x y b u s vt) bhat0 lam0 k)))" for k
    by (simp add: pass_at_def split: prod.splits)
  with r show ?thesis by simp
qed

theorem fit_closure_eq_ridge_witness:
  "svd_tab [[Fin 1, Fin 0], [Fin 0, Fin 1]]
     = Inr ([[Fin 1, Fin 0], [Fin 0, Fin 1]], [Fin 1, Fin 1], [[Fin 1, Fin 0], [Fin 0, Fin 1]])
   \<and> length [Fin (1/100), Fin 0] = length [[Fin 1, Fin 0], [Fin 0, Fin (1::real)]]
   \<and> ridge svd_tab [[Fin 1, Fin 0], [Fin 0, Fin 1]] [Fin (1/100), Fin 0] (Fin (2/5))
       = Inr [Fin (1/140), Fin 0]
   \<and> fit [[Fin 1, Fin 0], [Fin 0, Fin 1]] [Fin 1, Fin 1] (transpose [[Fin 1, Fin 0], [Fin 0, Fin 1]])
        [Fin (1/100), Fin 0] (Fin (2/5)) = [Fin (1/140), Fin 0]"
proof -
  have h1: "svd_tab [[Fin 1, Fin 0], [Fin 0, Fin 1]]
     = Inr ([[Fin 1, Fin 0], [Fin 0, Fin 1]], [Fin 1, Fin 1], [[Fin 1, Fin 0], [Fin 0, Fin 1]])"
    by (simp add: svd_tab_def)
  have h2: "length [Fin (1/100), Fin 0] = length [[Fin 1, Fin 0], [Fin 0, Fin (1::real)]]"
    by simp
  have f: "fit [[Fin 1, Fin 0], [Fin 0, Fin 1]] [Fin 1, Fin 1] (transpose [[Fin 1, Fin 0], [Fin 0, Fin 1]])
        [Fin (1/100), Fin 0] (Fin (2/5)) = [Fin (1/140), Fin 0]"
    by (simp add: run_defs)
  from fit_closure_eq_ridge[where svd = svd_tab and lam = "Fin (2/5)", OF h1 h2] f h1 h2
  show ?thesis
    by simp
qed

section \<open>What the tuner returns when the test is met\<close>

text \<open>
  Claim C1 says that when the test \<open>np.sum((bhat1 - bhat)**2) < 1e-4\<close> is met the tuner
  returns \<open>bhat1\<close>, the refit at the new penalty. The code breaks out of the loop before
  \<open>bhat = bhat1\<close> and returns the previous coefficients with the new penalty. On the 2 by
  2 identity with \<open>y = (0.01, 0)\<close> and \<open>r2 = 0.5\<close> the test is met in the first pass: the
  returned coefficients are \<open>fit(1) = (0.005, 0)\<close>, the returned penalty is \<open>0.4\<close>, and
  the refit at \<open>0.4\<close> is \<open>(1/140, 0)\<close>.
\<close>

theorem tuneridge_break_returns_previous_coefficients:
  "tuneridge svd_tab [[Fin 1, Fin 0], [Fin 0, Fin 1]] [Fin (1/100), Fin 0] (PyFloat (Fin (1/2)))
     = Inr ([Fin (1/200), Fin 0], Fin (2/5), Fin (1/120000))
   \<and> fit [[Fin 1, Fin 0], [Fin 0, Fin 1]] [Fin 1, Fin 1] (transpose [[Fin 1, Fin 0], [Fin 0, Fin 1]])
        [Fin (1/100), Fin 0] (Fin (2/5)) = [Fin (1/140), Fin 0]"
  by (simp add: run_defs tune_loop_numeral)

text \<open>
  In general: when the test is first met in pass \<open>j + 1\<close> of the 100, \<open>tuneridge\<close>
  returns the coefficients that entered that pass together with the penalty and the
  variance computed in it.
\<close>

theorem tuneridge_break_result:
  assumes "r2 \<noteq> PyFloat (Fin 0)" and "svd x = Inr (u, s, vt)" and "length y = length u"
    and "\<forall>i<j. \<not> conv_at (tune_env_of x y (Fin 1 / np_sqrt (Fin 1 / value_of r2 - Fin 1)) u s vt)
                          (fit u s (transpose vt) y (Fin 1)) (Fin 1) i"
    and "conv_at (tune_env_of x y (Fin 1 / np_sqrt (Fin 1 / value_of r2 - Fin 1)) u s vt)
                          (fit u s (transpose vt) y (Fin 1)) (Fin 1) j"
    and "j < 100"
  shows "tuneridge svd x y r2 =
           (case pass_at (tune_env_of x y (Fin 1 / np_sqrt (Fin 1 / value_of r2 - Fin 1)) u s vt)
                   (fit u s (transpose vt) y (Fin 1)) (Fin 1) j of
              (sigma2, lam, bhat1) \<Rightarrow>
                Inr (fst (tune_iter (tune_env_of x y (Fin 1 / np_sqrt (Fin 1 / value_of r2 - Fin 1)) u s vt)
                            (fit u s (transpose vt) y (Fin 1)) (Fin 1) j), lam, sigma2))"
proof -
  define E where "E = tune_env_of x y (Fin 1 / np_sqrt (Fin 1 / value_of r2 - Fin 1)) u s vt"
  define b0 where "b0 = fit u s (transpose vt) y (Fin 1)"
  have tr: "tuneridge svd x y r2 =
      (case tune_loop E 100 b0 (Fin 1) None of
         (bhat', lam', None) \<Rightarrow> Inl UnboundLocalError
       | (bhat', lam', Some sigma2') \<Rightarrow> Inr (bhat', lam', sigma2'))"
    unfolding E_def b0_def by (rule tuneridge_unfold[where svd = svd and x = x, OF assms(1,2,3)])
  have loop: "tune_loop E 100 b0 (Fin 1) None =
        (fst (tune_iter E b0 (Fin 1) j), fst (snd (pass_at E b0 (Fin 1) j)),
         Some (fst (pass_at E b0 (Fin 1) j)))"
    by (rule tune_loop_break[OF assms(4,5,6)[folded E_def b0_def]])
  show ?thesis
    unfolding tr loop E_def[symmetric] b0_def[symmetric] by (simp split: prod.splits)
qed

theorem tuneridge_break_result_witness:
  "PyFloat (Fin (1/2)) \<noteq> PyFloat (Fin 0)
   \<and> svd_tab [[Fin 1, Fin 0], [Fin 0, Fin 1]]
       = Inr ([[Fin 1, Fin 0], [Fin 0, Fin 1]], [Fin 1, Fin 1], [[Fin 1, Fin 0], [Fin 0, Fin 1]])
   \<and> length [Fin (1/100), Fin 0] = length [[Fin 1, Fin 0], [Fin 0, Fin (1::real)]]
   \<and> conv_at (tune_env_of [[Fin 1, Fin 0], [Fin 0, Fin 1]] [Fin (1/100), Fin 0]
                 (Fin 1 / np_sqrt (Fin 1 / value_of (PyFloat (Fin (1/2))) - Fin 1))
                 [[Fin 1, Fin 0], [Fin 0, Fin 1]] [Fin 1, Fin 1] [[Fin 1, Fin 0], [Fin 0, Fin 1]])
         (fit [[Fin 1, Fin 0], [Fin 0, Fin 1]] [Fin 1, Fin 1]
            (transpose [[Fin 1, Fin 0], [Fin 0, Fin 1]]) [Fin (1/100), Fin 0] (Fin 1)) (Fin 1) 0
   \<and> (0::nat) < 100
   \<and> tuneridge svd_tab [[Fin 1, Fin 0], [Fin 0, Fin 1]] [Fin (1/100), Fin 0] (PyFloat (Fin (1/2)))
       = Inr ([Fin (1/200), Fin 0], Fin (2/5), Fin (1/120000))"
proof -
  have h1: "PyFloat (Fin (1/2)) \<noteq> PyFloat (Fin 0)" by simp
  have h2: "svd_tab [[Fin 1, Fin 0], [Fin 0, Fin 1]]
       = Inr ([[Fin 1, Fin 0], [Fin 0, Fin 1]], [Fin 1, Fin 1], [[Fin 1, Fin 0], [Fin 0, Fin 1]])"
    by (simp add: svd_tab_def)
  have h3: "length [Fin (1/100), Fin 0] = length [[Fin 1, Fin 0], [Fin 0, Fin (1::real)]]" by simp
  have h4: "\<forall>i<0. \<not> conv_at (tune_env_of [[Fin 1, Fin 0], [Fin 0, Fin 1]] [Fin (1/100), Fin 0]
                 (Fin 1 / np_sqrt (Fin 1 / value_of (PyFloat (Fin (1/2))) - Fin 1))
                 [[Fin 1, Fin 0], [Fin 0, Fin 1]] [Fin 1, Fin 1] [[Fin 1, Fin 0], [Fin 0, Fin 1]])
         (fit [[Fin 1, Fin 0], [Fin 0, Fin 1]] [Fin 1, Fin 1]
            (transpose [[Fin 1, Fin 0], [Fin 0, Fin 1]]) [Fin (1/100), Fin 0] (Fin 1)) (Fin 1) i"
    by simp
  have h5: "conv_at (tune_env_of [[Fin 1, Fin 0], [Fin 0, Fin 1]] [Fin (1/100), Fin 0]
                 (Fin 1 / np_sqrt (Fin 1 / value_of (PyFloat (Fin (1/2))) - Fin 1))
                 [[Fin 1, Fin 0], [Fin 0, Fin 1]] [Fin 1, Fin 1] [[Fin 1, Fin 0], [Fin 0, Fin 1]])
         (fit [[Fin 1, Fin 0], [Fin 0, Fin 1]] [Fin 1, Fin 1]
            (transpose [[Fin 1, Fin 0], [Fin 0, Fin 1]]) [Fin (1/100), Fin 0] (Fin 1)) (Fin 1) 0"
    by (simp add: conv_at_def run_defs)
  have h6: "(0::nat) < 100" by simp
  have "tuneridge svd_tab [[Fin 1, Fin 0], [Fin 0, Fin 1]] [Fin (1/100), Fin 0] (PyFloat (Fin (1/2)))
       = Inr ([Fin (1/200), Fin 0], Fin (2/5), Fin (1/120000))"
    unfolding tuneridge_break_result[where svd = svd_tab, OF h1 h2 h3 h4 h5 h6]
    by (simp add: pass_at_def run_defs)
  with h1 h2 h3 h5 h6 show ?thesis by blast
qed


section \<open>Argument checks\<close>

text \<open>
  Claim C2 says that \<open>tuneridge\<close> fails with InvalidArgument when \<open>p > n\<close> or when \<open>r2\<close>
  is outside the open interval from 0 to 1. The code checks neither. With one row and two
  columns and \<open>r2 = 0.5\<close> it returns a result; with \<open>r2 = 1\<close> the scale \<open>b\<close> is inf and
  it returns a result as well.
\<close>

theorem tuneridge_no_validation_counterexample:
  "tuneridge svd_tab [[Fin 1, Fin 0]] [Fin (1/100)] (PyFloat (Fin (1/2)))
     = Inr ([Fin (1/200), Fin 0], Fin (4/9), Fin (1/100000))
   \<and> tuneridge svd_tab [[Fin 1]] [Fin 1] (PyFloat (Fin 1)) = Inr ([Fin 1], Fin 0, Fin 0)"
  by (simp add: run_defs tune_loop_numeral)

text \<open>
  Claim C2, amended. \<open>tuneridge\<close> validates nothing, and these are its outcomes, in the
  order in which the code reaches them. It raises ZeroDivisionError, from \<open>1/r2\<close> and
  before anything else is computed, exactly when \<open>r2\<close> is a Python float equal to zero (a
  numpy float64 zero gives inf there and no exception). Otherwise, when
  \<open>np.linalg.svd\<close> raises (LinAlgError, on a matrix with a nan or inf entry), that
  exception is the outcome. Otherwise it raises ValueError when \<open>y\<close> has not as many
  entries as the decomposition has rows. In every other case, whatever \<open>r2\<close> (1, the
  values outside the interval and the numpy zero included) and whatever the shape
  (\<open>p > n\<close> included), it runs the loop and returns a triple.
\<close>

theorem tuneridge_failures:
  "(r2 = PyFloat (Fin 0) \<longrightarrow> tuneridge svd x y r2 = Inl ZeroDivisionError) \<and>
   (r2 \<noteq> PyFloat (Fin 0) \<longrightarrow>
      (\<forall>e. svd x = Inl e \<longrightarrow> tuneridge svd x y r2 = Inl e) \<and>
      (\<forall>u s vt. svd x = Inr (u, s, vt) \<longrightarrow>
         (length y \<noteq> length u \<longrightarrow> tuneridge svd x y r2 = Inl ValueError) \<and>
         (length y = length u \<longrightarrow>
            (\<exists>bhat lam sigma2. tuneridge svd x y r2 = Inr (bhat, lam, sigma2)))))"
proof (intro conjI impI allI)
  assume "r2 = PyFloat (Fin 0)"
  then show "tuneridge svd x y r2 = Inl ZeroDivisionError"
    by (simp add: tuneridge_def)
next
  fix e
  assume "r2 \<noteq> PyFloat (Fin 0)" and "svd x = Inl e"
  then show "tuneridge svd x y r2 = Inl e"
    by (simp add: tuneridge_def one_over_value Let_def)
next
  fix u s vt
  assume "r2 \<noteq> PyFloat (Fin 0)" and "svd x = Inr (u, s, vt)" and "length y \<noteq> length u"
  then show "tuneridge svd x y r2 = Inl ValueError"
    by (simp add: tuneridge_def one_over_value Let_def)
next
  fix u s vt
  assume a: "r2 \<noteq> PyFloat (Fin 0)" "svd x = Inr (u, s, vt)" "length y = length u"
  define E where "E = tune_env_of x y (Fin 1 / np_sqrt (Fin 1 / value_of r2 - Fin 1)) u s vt"
  obtain b l s2 where r: "tune_loop E 100 (fit u s (transpose vt) y (Fin 1)) (Fin 1) None = (b, l, s2)"
    by (cases "tune_loop E 100 (fit u s (transpose vt) y (Fin 1)) (Fin 1) None") auto
  have "(100::nat) = Suc 99" by simp
  with r tune_loop_binds_sigma2 have "s2 \<noteq> None" by metis
  then obtain v where "s2 = Some v" by auto
  with r have "tuneridge svd x y r2 = Inr (b, l, v)"
    unfolding tuneridge_unfold[where svd = svd and x = x, OF a] E_def[symmetric] by simp
  then show "\<exists>bhat lam sigma2. tuneridge svd x y r2 = Inr (bhat, lam, sigma2)" by blast
qed

theorem tuneridge_failures_witness:
  "tuneridge svd_tab [[Fin 1]] [Fin 1] (PyFloat (Fin 0)) = Inl ZeroDivisionError \<and>
   NpFloat64 (Fin 0) \<noteq> PyFloat (Fin 0) \<and> svd_tab [[Fin 1]] = Inr ([[Fin 1]], [Fin 1], [[Fin 1]]) \<and>
   (\<exists>bhat lam sigma2. tuneridge svd_tab [[Fin 1]] [Fin 1] (NpFloat64 (Fin 0)) = Inr (bhat, lam, sigma2)) \<and>
   PyFloat (Fin (1/2)) \<noteq> PyFloat (Fin 0) \<and> svd_tab [[NaN]] = Inl LinAlgError \<and>
   tuneridge svd_tab [[NaN]] [Fin 1] (PyFloat (Fin (1/2))) = Inl LinAlgError \<and>
   PyFloat (Fin 1) \<noteq> PyFloat (Fin 0) \<and> length [Fin 1, Fin 1] \<noteq> length [[Fin (1::real)]] \<and>
   tuneridge svd_tab [[Fin 1]] [Fin 1, Fin 1] (PyFloat (Fin 1)) = Inl ValueError \<and>
   PyFloat (Fin 2) \<noteq> PyFloat (Fin 0) \<and>
   svd_tab [[Fin 1, Fin 0]] = Inr ([[Fin 1]], [Fin 1], [[Fin 1, Fin 0]]) \<and>
   (\<exists>bhat lam sigma2.
      tuneridge svd_tab [[Fin 1, Fin 0]] [Fin 1] (PyFloat (Fin 2)) = Inr (bhat, lam, sigma2))"
  using tuneridge_failures[where ?r2.0 = "PyFloat (Fin 0)" and svd = svd_tab and x = "[[Fin 1]]"
      and y = "[Fin 1]"]
    tuneridge_failures[where ?r2.0 = "NpFloat64 (Fin 0)" and svd = svd_tab and x = "[[Fin 1]]"
      and y = "[Fin 1]"]
    tuneridge_failures[where ?r2.0 = "PyFloat (Fin (1/2))" and svd = svd_tab and x = "[[NaN]]"
      and y = "[Fin 1]"]
    tuneridge_failures[where ?r2.0 = "PyFloat (Fin 1)" and svd = svd_tab and x = "[[Fin 1]]"
      and y = "[Fin 1, Fin 1]"]
    tuneridge_failures[where ?r2.0 = "PyFloat (Fin 2)" and svd = svd_tab and x = "[[Fin 1, Fin 0]]"
      and y = "[Fin 1]"]
  by (simp add: svd_tab_def)

section \<open>A zero singular value\<close>

text \<open>
  Claim C3 says that at penalty 0 a zero singular value contributes weight 0 and the
  coefficients are finite. The code has no such case: the weight is \<open>0 / (0 + 0)\<close>, which
  numpy evaluates to nan. For the 1 by 1 matrix \<open>(0)\<close> and \<open>y = (1)\<close> the solve at penalty
  0 returns \<open>(nan)\<close>.
\<close>

theorem ridge_zero_singular_value_counterexample:
  "ridge svd_tab [[Fin 0]] [Fin 1] (Fin 0) = Inr [NaN]"
  by (simp add: run_defs)

text \<open>
  Claim C3, amended, in exact arithmetic (no rounding, no overflow, no underflow). For
  finite data with the shapes of a decomposition (\<open>u\<close> is \<open>n\<close> by \<open>k\<close>, \<open>s\<close> has \<open>k\<close>
  entries, \<open>vt\<close> is \<open>k\<close> by \<open>p\<close>) and a zero singular value: at penalty 0 every one of
  the \<open>p\<close> coefficients is nan; at every penalty above 0 the coefficients are those of the
  exact solve, in which the weight of the zero singular value is 0, and they are finite
  because exact arithmetic does not overflow.
\<close>

theorem ridge_zero_singular_value:
  assumes svd: "svd x = Inr (emb U, map Fin S, emb VT)"
    and U: "rect n k U" and S: "length S = k" and VT: "rect k p VT"
    and n: "0 < n" and y: "length y = n"
    and i: "i < k" and zero: "S ! i = 0"
  shows "(\<exists>b. ridge svd x (map Fin y) (Fin 0) = Inr b \<and> length b = p \<and> (\<forall>c\<in>set b. c = NaN)) \<and>
         (\<forall>l>0. ridge svd x (map Fin y) (Fin l) = Inr (map Fin (fit_exact U S VT y l))
                 \<and> map (\<lambda>s. s / (s * s + l)) S ! i = 0)"
proof (intro conjI allI impI)
  define c where "c = mv (transpose (emb U)) (map Fin y)"
  define g where "g = map (\<lambda>si. si / (si * si + Fin 0)) (map Fin S)"
  define w where "w = map2 (*) c g"
  define V where "V = transpose (emb VT)"
  have lenU: "length U = n" using U by (simp add: rect_def)
  have k: "0 < k" using i by simp
  have r: "ridge svd x (map Fin y) (Fin 0) = Inr (mv V w)"
    using svd y lenU by (simp add: ridge_def emb_def c_def g_def w_def V_def)
  have "rect k n (transpose (emb U))" using U n by (simp add: rect_transpose)
  then have lc: "length c = k" by (simp add: c_def rect_def)
  have lg: "length g = k" using S by (simp add: g_def)
  have "g ! i = NaN" using i S zero by (simp add: g_def)
  then have wi: "w ! i = NaN" using i lc lg by (simp add: w_def)
  have lw: "i < length w" using i lc lg by (simp add: w_def)
  have rV: "rect p k V" using VT k by (simp add: V_def rect_transpose)
  have "\<forall>c\<in>set (mv V w). c = NaN"
  proof
    fix e assume "e \<in> set (mv V w)"
    then obtain r where r: "r \<in> set V" "e = dot r w" by (auto simp: mv_def)
    then have "length r = k" using rV by (simp add: rect_def list_all_iff)
    with r i lw wi show "e = NaN" by (simp add: dot_NaN)
  qed
  moreover have "length (mv V w) = p" using rV by (simp add: rect_def)
  ultimately show "\<exists>b. ridge svd x (map Fin y) (Fin 0) = Inr b \<and> length b = p \<and> (\<forall>c\<in>set b. c = NaN)"
    using r by blast
next
  fix l :: real assume l: "0 < l"
  have nz: "\<forall>s\<in>set S. s * s + l \<noteq> 0"
  proof
    fix s :: real
    have "0 \<le> s * s" by simp
    with l show "s * s + l \<noteq> 0" by linarith
  qed
  have lenU: "length U = n" using U by (simp add: rect_def)
  have "ridge svd x (map Fin y) (Fin l)
        = Inr (fit (emb U) (map Fin S) (transpose (emb VT)) (map Fin y) (Fin l))"
    using svd y lenU by (simp add: ridge_def fit_def emb_def)
  then show "ridge svd x (map Fin y) (Fin l) = Inr (map Fin (fit_exact U S VT y l))"
    by (simp only: fit_Fin[OF nz])
  show "map (\<lambda>s. s / (s * s + l)) S ! i = 0"
    using i S zero by simp
qed

theorem ridge_zero_singular_value_witness:
  "svd_tab [[Fin 0]] = Inr (emb [[1]], map Fin [0], emb [[1]])
   \<and> rect 1 1 [[1::real]] \<and> length [0::real] = 1 \<and> 0 < (1::nat) \<and> length [1::real] = 1
   \<and> (0::nat) < 1 \<and> [0::real] ! 0 = 0
   \<and> (\<exists>b. ridge svd_tab [[Fin 0]] (map Fin [1]) (Fin 0) = Inr b \<and> length b = 1 \<and> (\<forall>c\<in>set b. c = NaN))
   \<and> ridge svd_tab [[Fin 0]] (map Fin [1]) (Fin 1) = Inr (map Fin (fit_exact [[1]] [0] [[1]] [1] 1))"
proof -
  have h1: "svd_tab [[Fin 0]] = Inr (emb [[1]], map Fin [0], emb [[1]])"
    by (simp add: svd_tab_def emb_def)
  have h2: "rect 1 1 [[1::real]]" by (simp add: rect_def)
  have h3: "length [0::real] = 1" by simp
  have h4: "0 < (1::nat)" by simp
  have h5: "length [1::real] = 1" by simp
  have h6: "[0::real] ! 0 = 0" by simp
  from ridge_zero_singular_value[where svd = svd_tab and x = "[[Fin 0]]" and i = 0,
      OF h1 h2 h3 h2 h4 h5 h4 h6] h1 h2
  show ?thesis
    by simp
qed

section \<open>The update rules\<close>

lemma fl_mult_commute: "x * y = y * x" for x y :: fl
  by (cases x; cases y; simp)

lemma map2_mult_commute: "map2 (*) a b = map2 (*) b a" for a b :: "fl list"
  by (induction a b rule: list_induct2') (simp_all add: fl_mult_commute)

lemma spec_solve_fit: "spec_solve (u, s, vt) y lam = fit u s (transpose vt) y lam"
  unfolding spec_solve_def fit_def Let_def prod.case
  by (subst map2_mult_commute) (rule refl)

lemma spec_tuning_Suc:
  "spec_tuning x y (u, s, vt) r2 (Suc k) =
     (case spec_tuning x y (u, s, vt) r2 k of (bhat, lam, _) \<Rightarrow>
        case tune_body (tune_env_of x y (Fin 1 / np_sqrt (Fin 1 / r2 - Fin 1)) u s vt) bhat lam of
          (sigma2, lam1, bhat1) \<Rightarrow> (bhat1, lam1, Some sigma2))"
  by (simp add: spec_solve_fit tune_body_def tune_env_of_def Let_def
        spec_shape_def spec_scale_def split: prod.splits)

lemma spec_tuning_iter:
  "(case spec_tuning x y (u, s, vt) r2 k of (bhat, lam, _) \<Rightarrow> (bhat, lam))
     = tune_iter (tune_env_of x y (Fin 1 / np_sqrt (Fin 1 / r2 - Fin 1)) u s vt)
         (fit u s (transpose vt) y (Fin 1)) (Fin 1) k"
proof (induction k)
  case 0
  show ?case by (simp add: spec_solve_fit)
next
  case (Suc k)
  show ?case
    unfolding spec_tuning_Suc tune_iter_Suc Suc.IH[symmetric]
    by (simp split: prod.splits)
qed

lemma spec_tuning_pass:
  "spec_tuning x y (u, s, vt) r2 (Suc k) =
     (case pass_at (tune_env_of x y (Fin 1 / np_sqrt (Fin 1 / r2 - Fin 1)) u s vt)
             (fit u s (transpose vt) y (Fin 1)) (Fin 1) k of
        (sigma2, lam1, bhat1) \<Rightarrow> (bhat1, lam1, Some sigma2))"
  unfolding spec_tuning_Suc pass_at_def spec_tuning_iter[symmetric]
  by (simp split: prod.splits)


text \<open>
  Claim C5. For \<open>r2\<close> strictly between 0 and 1 (and \<open>y\<close> of the length of the
  decomposition) \<open>tuneridge\<close> returns, and what it returns comes from the iteration of
  the specification: there is a pass \<open>j + 1\<close> of at most 100 whose penalty and variance are
  the returned ones, computed in the order the claim gives, from \<open>a = p/2\<close>,
  \<open>b = 1/sqrt(1/r2 - 1)\<close> and the start \<open>lam = 1\<close>. The returned coefficients are those
  before pass \<open>j + 1\<close> when its test is met, and those of the last pass when none of
  the 100 tests is met.
\<close>

theorem tuneridge_follows_spec_iteration:
  assumes "0 < r" and "r < 1" and "value_of r2 = Fin r"
    and "svd x = Inr D" and "length y = length (fst D)"
  shows "\<exists>j<100. \<exists>bhat lam sigma2.
           tuneridge svd x y r2 = Inr (bhat, lam, sigma2) \<and>
           snd (spec_tuning x y D (Fin r) (Suc j)) = (lam, Some sigma2) \<and>
           ((converged (fst (spec_tuning x y D (Fin r) (Suc j))) (fst (spec_tuning x y D (Fin r) j))
               \<and> bhat = fst (spec_tuning x y D (Fin r) j))
            \<or> (j = 99 \<and> bhat = fst (spec_tuning x y D (Fin r) (Suc j))))"
proof -
  obtain u s vt where D: "D = (u, s, vt)" by (cases D) auto
  define E where "E = tune_env_of x y (Fin 1 / np_sqrt (Fin 1 / Fin r - Fin 1)) u s vt"
  define b0 where "b0 = fit u s (transpose vt) y (Fin 1)"
  have sp_it: "tune_iter E b0 (Fin 1) k = (fst (spec_tuning x y D (Fin r) k),
                 fst (snd (spec_tuning x y D (Fin r) k)))" for k
    unfolding E_def b0_def D spec_tuning_iter[symmetric] by (simp split: prod.splits)
  have sp_pass: "pass_at E b0 (Fin 1) k = (s2, l1, b1) \<Longrightarrow>
                 spec_tuning x y D (Fin r) (Suc k) = (b1, l1, Some s2)" for k s2 l1 b1
    unfolding E_def b0_def D spec_tuning_pass by simp
  have r0: "r2 \<noteq> PyFloat (Fin 0)" using assms(1,3) by auto
  have len: "length y = length u" using assms(5) D by simp
  have sv: "svd x = Inr (u, s, vt)" using assms(4) D by simp
  have tr: "tuneridge svd x y r2 =
      (case tune_loop E 100 b0 (Fin 1) None of
         (bhat', lam', None) \<Rightarrow> Inl UnboundLocalError
       | (bhat', lam', Some sigma2') \<Rightarrow> Inr (bhat', lam', sigma2'))"
    unfolding E_def b0_def assms(3)[symmetric] by (rule tuneridge_unfold[where svd = svd and x = x, OF r0 sv len])
  show ?thesis
  proof (cases "\<exists>j<100. conv_at E b0 (Fin 1) j")
    case True
    define j where "j = (LEAST j. j < 100 \<and> conv_at E b0 (Fin 1) j)"
    have ex: "\<exists>j. j < 100 \<and> conv_at E b0 (Fin 1) j" using True by blast
    have j: "j < 100 \<and> conv_at E b0 (Fin 1) j"
      unfolding j_def by (rule LeastI_ex[OF ex])
    have least: "\<forall>i<j. \<not> conv_at E b0 (Fin 1) i"
    proof (intro allI impI notI)
      fix i assume "i < j" "conv_at E b0 (Fin 1) i"
      with j have "i < 100 \<and> conv_at E b0 (Fin 1) i" by simp
      then have "j \<le> i" unfolding j_def by (rule Least_le)
      with \<open>i < j\<close> show False by simp
    qed
    have j100: "j < 100" using j by simp
    have cj: "conv_at E b0 (Fin 1) j" using j by simp
    have loop: "tune_loop E 100 b0 (Fin 1) None =
        (fst (tune_iter E b0 (Fin 1) j), fst (snd (pass_at E b0 (Fin 1) j)),
         Some (fst (pass_at E b0 (Fin 1) j)))"
      by (rule tune_loop_break[OF least cj j100])
    obtain s2 l1 b1 where pa: "pass_at E b0 (Fin 1) j = (s2, l1, b1)"
      by (cases "pass_at E b0 (Fin 1) j") auto
    have spS: "spec_tuning x y D (Fin r) (Suc j) = (b1, l1, Some s2)"
      by (rule sp_pass[OF pa])
    have cv: "converged b1 (fst (spec_tuning x y D (Fin r) j))"
      using cj pa unfolding conv_at_def pass_at_def sp_it by simp
    have res: "tuneridge svd x y r2 = Inr (fst (spec_tuning x y D (Fin r) j), l1, s2)"
      unfolding tr loop pa sp_it by simp
    have c2: "snd (spec_tuning x y D (Fin r) (Suc j)) = (l1, Some s2)"
      unfolding spS by simp
    have c3: "converged (fst (spec_tuning x y D (Fin r) (Suc j))) (fst (spec_tuning x y D (Fin r) j))"
      using cv unfolding spS by simp
    from res c2 c3 have "\<exists>bhat lam sigma2.
           tuneridge svd x y r2 = Inr (bhat, lam, sigma2) \<and>
           snd (spec_tuning x y D (Fin r) (Suc j)) = (lam, Some sigma2) \<and>
           ((converged (fst (spec_tuning x y D (Fin r) (Suc j))) (fst (spec_tuning x y D (Fin r) j))
               \<and> bhat = fst (spec_tuning x y D (Fin r) j))
            \<or> (j = 99 \<and> bhat = fst (spec_tuning x y D (Fin r) (Suc j))))"
      by blast
    with j100 show ?thesis by blast
  next
    case False
    then have nc: "\<forall>i<Suc 99. \<not> conv_at E b0 (Fin 1) i" by simp
    have "tune_loop E (Suc 99) b0 (Fin 1) None =
        (fst (tune_iter E b0 (Fin 1) (Suc 99)), snd (tune_iter E b0 (Fin 1) (Suc 99)),
         Some (fst (pass_at E b0 (Fin 1) 99)))"
      by (rule tune_loop_exhaust[OF nc])
    moreover have "Suc 99 = 100" by simp
    ultimately have loop: "tune_loop E 100 b0 (Fin 1) None =
        (fst (tune_iter E b0 (Fin 1) (Suc 99)), snd (tune_iter E b0 (Fin 1) (Suc 99)),
         Some (fst (pass_at E b0 (Fin 1) 99)))"
      by (simp only:)
    obtain s2 l1 b1 where pa: "pass_at E b0 (Fin 1) 99 = (s2, l1, b1)"
      by (cases "pass_at E b0 (Fin 1) 99") auto
    have spS: "spec_tuning x y D (Fin r) (Suc 99) = (b1, l1, Some s2)"
      by (rule sp_pass[OF pa])
    have res: "tuneridge svd x y r2 = Inr (b1, l1, s2)"
      unfolding tr loop pa sp_it spS by simp
    have c2: "snd (spec_tuning x y D (Fin r) (Suc 99)) = (l1, Some s2)"
      unfolding spS by simp
    have c3: "b1 = fst (spec_tuning x y D (Fin r) (Suc 99))"
      unfolding spS by simp
    from res c2 c3 have "\<exists>bhat lam sigma2.
           tuneridge svd x y r2 = Inr (bhat, lam, sigma2) \<and>
           snd (spec_tuning x y D (Fin r) (Suc 99)) = (lam, Some sigma2) \<and>
           ((converged (fst (spec_tuning x y D (Fin r) (Suc 99))) (fst (spec_tuning x y D (Fin r) 99))
               \<and> bhat = fst (spec_tuning x y D (Fin r) 99))
            \<or> ((99::nat) = 99 \<and> bhat = fst (spec_tuning x y D (Fin r) (Suc 99))))"
      by blast
    moreover have "(99::nat) < 100" by simp
    ultimately show ?thesis by blast
  qed
qed


theorem tuneridge_follows_spec_iteration_witness:
  "(0::real) < 1/2 \<and> (1/2::real) < 1 \<and> value_of (PyFloat (Fin (1/2))) = Fin (1/2)
   \<and> svd_tab [[Fin 1, Fin 0], [Fin 0, Fin 1]]
       = Inr ([[Fin 1, Fin 0], [Fin 0, Fin 1]], [Fin 1, Fin 1], [[Fin 1, Fin 0], [Fin 0, Fin 1]])
   \<and> length [Fin (1/100), Fin 0]
       = length (fst ([[Fin 1, Fin 0], [Fin 0, Fin 1]], [Fin 1, Fin (1::real)], [[Fin 1, Fin 0], [Fin 0, Fin (1::real)]]))
   \<and> (\<exists>j<100. \<exists>bhat lam sigma2.
           tuneridge svd_tab [[Fin 1, Fin 0], [Fin 0, Fin 1]] [Fin (1/100), Fin 0] (PyFloat (Fin (1/2)))
             = Inr (bhat, lam, sigma2) \<and>
           snd (spec_tuning [[Fin 1, Fin 0], [Fin 0, Fin 1]] [Fin (1/100), Fin 0]
                 ([[Fin 1, Fin 0], [Fin 0, Fin 1]], [Fin 1, Fin 1], [[Fin 1, Fin 0], [Fin 0, Fin 1]])
                 (Fin (1/2)) (Suc j)) = (lam, Some sigma2))"
proof -
  have h1: "(0::real) < 1/2" by simp
  have h2: "(1/2::real) < 1" by simp
  have hv: "value_of (PyFloat (Fin (1/2))) = Fin (1/2)" by simp
  have h3: "svd_tab [[Fin 1, Fin 0], [Fin 0, Fin 1]]
       = Inr ([[Fin 1, Fin 0], [Fin 0, Fin 1]], [Fin 1, Fin 1], [[Fin 1, Fin 0], [Fin 0, Fin 1]])"
    by (simp add: svd_tab_def)
  have h4: "length [Fin (1/100), Fin 0]
       = length (fst ([[Fin 1, Fin 0], [Fin 0, Fin 1]], [Fin 1, Fin (1::real)], [[Fin 1, Fin 0], [Fin 0, Fin (1::real)]]))"
    by simp
  from tuneridge_follows_spec_iteration[where svd = svd_tab, OF h1 h2 hv h3 h4] h1 h2 hv h3 h4
  show ?thesis by blast
qed

section \<open>The iteration budget\<close>

text \<open>
  Claim C4 says that when the 100 passes are used up the tuner returns the last computed
  triple without raising, and that the result carries a flag from which the caller can
  tell. The first half holds. The second does not: the value returned is the triple of the
  loop variables \<open>bhat\<close>, \<open>lam\<close>, \<open>sigma2\<close> and nothing else. On the 1 by 1 matrix \<open>(0)\<close>
  with \<open>y = (1)\<close> and \<open>r2 = 0.5\<close> no pass meets the test (the refit is nan from the first
  pass on, and a comparison with nan is false), and the whole result is the three values
  \<open>((nan), nan, nan)\<close>.
\<close>

lemma nan_run_iter:
  "tune_iter (tune_env_of [[Fin 0]] [Fin 1] (Fin 1) [[Fin 1]] [Fin 0] [[Fin 1]]) [Fin 0] (Fin 1)
     (Suc (Suc k)) = ([NaN], NaN)"
proof (induction k)
  case 0
  show ?case by (simp add: run_defs)
next
  case (Suc k)
  show ?case
    unfolding tune_iter_Suc[of _ _ _ "Suc (Suc k)"] Suc.IH by (simp add: run_defs)
qed

lemma nan_run_never_converges:
  "\<not> conv_at (tune_env_of [[Fin 0]] [Fin 1] (Fin 1) [[Fin 1]] [Fin 0] [[Fin 1]]) [Fin 0] (Fin 1) i"
proof -
  consider "i = 0" | "i = Suc 0" | k where "i = Suc (Suc k)"
    by (cases i rule: nat.exhaust) (auto, metis not0_implies_Suc)
  then show ?thesis
  proof cases
    case 1
    then show ?thesis by (simp add: conv_at_def run_defs)
  next
    case 2
    then show ?thesis by (simp add: conv_at_def run_defs)
  next
    case 3
    show ?thesis
      unfolding 3 conv_at_def nan_run_iter by (simp add: run_defs)
  qed
qed

theorem tuneridge_exhausted_bare_triple_counterexample:
  "list_all (\<lambda>i. \<not> conv_at (tune_env_of [[Fin 0]] [Fin 1] (Fin 1) [[Fin 1]] [Fin 0] [[Fin 1]])
                          [Fin 0] (Fin 1) i) [0..<100]
   \<and> tuneridge svd_tab [[Fin 0]] [Fin 1] (PyFloat (Fin (1/2))) = Inr ([NaN], NaN, NaN)"
proof -
  have "tuneridge svd_tab [[Fin 0]] [Fin 1] (PyFloat (Fin (1/2))) = Inr ([NaN], NaN, NaN)"
    by (simp add: run_defs tune_loop_numeral)
  then show ?thesis
    using nan_run_never_converges by (simp add: list_all_iff)
qed

text \<open>
  Claim C4, amended. When none of the 100 tests is met, \<open>tuneridge\<close> raises nothing and
  returns exactly the triple \<open>(bhat1, lam, sigma2)\<close> computed in the 100th pass.
\<close>

theorem tuneridge_exhausted_returns_last:
  assumes "r2 \<noteq> PyFloat (Fin 0)" and "svd x = Inr (u, s, vt)" and "length y = length u"
    and "\<forall>i<100. \<not> conv_at (tune_env_of x y (Fin 1 / np_sqrt (Fin 1 / value_of r2 - Fin 1)) u s vt)
                          (fit u s (transpose vt) y (Fin 1)) (Fin 1) i"
  shows "tuneridge svd x y r2 =
           (case pass_at (tune_env_of x y (Fin 1 / np_sqrt (Fin 1 / value_of r2 - Fin 1)) u s vt)
                   (fit u s (transpose vt) y (Fin 1)) (Fin 1) 99 of
              (sigma2, lam, bhat1) \<Rightarrow> Inr (bhat1, lam, sigma2))"
proof -
  define E where "E = tune_env_of x y (Fin 1 / np_sqrt (Fin 1 / value_of r2 - Fin 1)) u s vt"
  define b0 where "b0 = fit u s (transpose vt) y (Fin 1)"
  have tr: "tuneridge svd x y r2 =
      (case tune_loop E 100 b0 (Fin 1) None of
         (bhat', lam', None) \<Rightarrow> Inl UnboundLocalError
       | (bhat', lam', Some sigma2') \<Rightarrow> Inr (bhat', lam', sigma2'))"
    unfolding E_def b0_def by (rule tuneridge_unfold[where svd = svd and x = x, OF assms(1,2,3)])
  have nc: "\<forall>i<Suc 99. \<not> conv_at E b0 (Fin 1) i"
    using assms(4) unfolding E_def b0_def by simp
  have "tune_loop E (Suc 99) b0 (Fin 1) None =
        (fst (tune_iter E b0 (Fin 1) (Suc 99)), snd (tune_iter E b0 (Fin 1) (Suc 99)),
         Some (fst (pass_at E b0 (Fin 1) 99)))"
    by (rule tune_loop_exhaust[OF nc])
  moreover have "Suc 99 = 100" by simp
  ultimately have loop: "tune_loop E 100 b0 (Fin 1) None =
        (fst (tune_iter E b0 (Fin 1) (Suc 99)), snd (tune_iter E b0 (Fin 1) (Suc 99)),
         Some (fst (pass_at E b0 (Fin 1) 99)))"
    by (simp only:)
  obtain s2 l1 b1 where pa: "pass_at E b0 (Fin 1) 99 = (s2, l1, b1)"
    by (cases "pass_at E b0 (Fin 1) 99") auto
  have it: "tune_iter E b0 (Fin 1) (Suc 99) = (b1, l1)"
    using pa unfolding tune_iter_Suc pass_at_def by (simp split: prod.splits)
  show ?thesis
    unfolding tr loop it E_def[symmetric] b0_def[symmetric] pa by simp
qed

theorem tuneridge_exhausted_returns_last_witness:
  "PyFloat (Fin (1/2)) \<noteq> PyFloat (Fin 0) \<and> svd_tab [[Fin 0]] = Inr ([[Fin 1]], [Fin 0], [[Fin 1]])
   \<and> length [Fin 1] = length [[Fin 1]]
   \<and> list_all (\<lambda>i. \<not> conv_at (tune_env_of [[Fin 0]] [Fin 1] (Fin 1 / np_sqrt (Fin 1 / value_of (PyFloat (Fin (1/2))) - Fin 1))
                                 [[Fin 1]] [Fin 0] [[Fin 1]])
                          (fit [[Fin 1]] [Fin 0] (transpose [[Fin 1]]) [Fin 1] (Fin 1)) (Fin 1) i) [0..<100]
   \<and> tuneridge svd_tab [[Fin 0]] [Fin 1] (PyFloat (Fin (1/2))) = Inr ([NaN], NaN, NaN)"
proof -
  have b: "Fin 1 / np_sqrt (Fin 1 / value_of (PyFloat (Fin (1/2))) - Fin 1) = Fin 1" by simp
  have f: "fit [[Fin 1]] [Fin 0] (transpose [[Fin 1]]) [Fin 1] (Fin 1) = [Fin 0]"
    by (simp add: run_defs)
  have h1: "PyFloat (Fin (1/2)) \<noteq> PyFloat (Fin 0)" by simp
  have h2: "svd_tab [[Fin 0]] = Inr ([[Fin 1]], [Fin 0], [[Fin 1]])" by (simp add: svd_tab_def)
  have h3: "length [Fin 1] = length [[Fin 1]]" by simp
  have h4: "\<forall>i<100. \<not> conv_at (tune_env_of [[Fin 0]] [Fin 1] (Fin 1 / np_sqrt (Fin 1 / value_of (PyFloat (Fin (1/2))) - Fin 1))
                                 [[Fin 1]] [Fin 0] [[Fin 1]])
                          (fit [[Fin 1]] [Fin 0] (transpose [[Fin 1]]) [Fin 1] (Fin 1)) (Fin 1) i"
    unfolding b f using nan_run_never_converges by blast
  have p: "pass_at (tune_env_of [[Fin 0]] [Fin 1] (Fin 1) [[Fin 1]] [Fin 0] [[Fin 1]]) [Fin 0] (Fin 1) 99
           = (NaN, NaN, [NaN])"
  proof -
    have e: "Suc (Suc 97) = 99" by simp
    have it99: "tune_iter (tune_env_of [[Fin 0]] [Fin 1] (Fin 1) [[Fin 1]] [Fin 0] [[Fin 1]])
                  [Fin 0] (Fin 1) 99 = ([NaN], NaN)"
      using nan_run_iter[of 97] unfolding e .
    show ?thesis
      unfolding pass_at_def it99 by (simp add: run_defs)
  qed
  have "tuneridge svd_tab [[Fin 0]] [Fin 1] (PyFloat (Fin (1/2))) = Inr ([NaN], NaN, NaN)"
    unfolding tuneridge_exhausted_returns_last[where svd = svd_tab, OF h1 h2 h3 h4] b f p by simp
  moreover have "list_all (\<lambda>i. \<not> conv_at (tune_env_of [[Fin 0]] [Fin 1] (Fin 1 / np_sqrt (Fin 1 / value_of (PyFloat (Fin (1/2))) - Fin 1))
                                 [[Fin 1]] [Fin 0] [[Fin 1]])
                          (fit [[Fin 1]] [Fin 0] (transpose [[Fin 1]]) [Fin 1] (Fin 1)) (Fin 1) i) [0..<100]"
    using h4 by (simp add: list_all_iff)
  ultimately show ?thesis using h1 h2 h3 by blast
qed

section \<open>Positivity through the loop\<close>

lemma sumsq_nonneg: "0 \<le> sumsq w" for w :: "real list"
  unfolding sumsq_def by (rule sum_list_nonneg) auto

lemma sumsq_Cons: "sumsq (a # w) = a * a + sumsq w"
  by (simp add: sumsq_def)

lemma sumsq_zero_iff: "sumsq w = 0 \<longleftrightarrow> (\<forall>e\<in>set w. e = 0)" for w :: "real list"
proof (induction w)
  case Nil
  show ?case by (simp add: sumsq_def)
next
  case (Cons a w)
  have "a * a + sumsq w = 0 \<longleftrightarrow> a * a = 0 \<and> sumsq w = 0"
    by (rule add_nonneg_eq_0_iff) (simp_all add: sumsq_nonneg)
  with Cons show ?case by (simp add: sumsq_Cons)
qed

lemma dot_zero_right: "(\<forall>e\<in>set w. e = 0) \<Longrightarrow> dot r w = 0" for r w :: "real list"
  by (induction r w rule: list_induct2') (simp_all add: dot_def)

lemma resid_zero_coef:
  fixes y w :: "real list"
  assumes "\<forall>e\<in>set w. e = 0" and "length y = length X"
  shows "map2 (-) y (mv X w) = y"
proof (rule nth_equalityI)
  show "length (map2 (-) y (mv X w)) = length y" using assms(2) by simp
next
  fix i assume "i < length (map2 (-) y (mv X w))"
  then have i: "i < length y" "i < length X" using assms(2) by simp_all
  then have "mv X w ! i = 0" using assms(1) by (simp add: mv_def dot_zero_right)
  with i show "map2 (-) y (mv X w) ! i = y ! i" by simp
qed

lemma ncols_emb [simp]: "ncols (emb A) = ncols A"
  by (cases A) (simp_all add: ncols_def emb_def)

lemma length_emb [simp]: "length (emb A) = length A"
  by (simp add: emb_def)

lemma scale_Fin:
  assumes "0 < r" and "r < 1"
  shows "Fin 1 / np_sqrt (Fin 1 / Fin r - Fin 1) = Fin (1 / sqrt (1 / r - 1)) \<and> 0 < 1 / sqrt (1 / r - 1)"
proof -
  have "1 < 1 / r" using assms by simp
  then have pos: "0 < 1 / r - 1" by simp
  then have "0 < sqrt (1 / r - 1)" by simp
  with pos assms show ?thesis by simp
qed

lemma tune_body_exact:
  fixes X U VT :: "real list list" and y S bh :: "real list" and l b :: real
  assumes l: "0 < l" and b: "0 < b" and p: "2 \<le> ncols X"
    and len: "length y = length X" and y: "\<exists>e\<in>set y. e \<noteq> 0"
  shows "\<exists>s2 l1. tune_body (tune_env_of (emb X) (map Fin y) (Fin b) (emb U) (map Fin S) (emb VT))
                     (map Fin bh) (Fin l)
                   = (Fin s2, Fin l1, map Fin (fit_exact U S VT y l1))
               \<and> 0 < s2 \<and> 0 < l1
               \<and> sumsq (map Fin bh) / Fin s2 + Fin 2 * Fin b = Fin (sumsq bh / s2 + 2 * b)
               \<and> 0 < sumsq bh / s2 + 2 * b"
proof -
  define rss where "rss = sumsq (map2 (-) y (mv X bh))"
  define bss where "bss = sumsq bh"
  define m where "m = real (length X + ncols X + 2)"
  define s2 where "s2 = (rss + l * bss) / m"
  define d where "d = bss / s2 + 2 * b"
  define l1 where "l1 = (real (ncols X) + 2 * (real (ncols X) / 2) - 2) / d"
  have rss0: "0 \<le> rss" and bss0: "0 \<le> bss"
    by (simp_all add: rss_def bss_def sumsq_nonneg)
  have m: "0 < m" by (simp add: m_def)
  have "0 < rss + l * bss"
  proof (cases "bss = 0")
    case True
    then have z: "\<forall>e\<in>set bh. e = 0" by (simp add: bss_def sumsq_zero_iff)
    have "rss = sumsq y" unfolding rss_def resid_zero_coef[OF z len] ..
    moreover have "sumsq y \<noteq> 0" using y by (simp add: sumsq_zero_iff)
    ultimately have "0 < rss" using sumsq_nonneg[of y] by simp
    with True show ?thesis by simp
  next
    case False
    with bss0 have "0 < bss" by simp
    with l have "0 < l * bss" by simp
    with rss0 show ?thesis by simp
  qed
  with m have s2: "0 < s2" by (simp add: s2_def)
  have "0 \<le> bss / s2" using bss0 s2 by simp
  with b have d: "0 < d" by (simp add: d_def)
  have "0 < real (ncols X) + 2 * (real (ncols X) / 2) - 2" using p by simp
  with d have l1: "0 < l1" by (simp add: l1_def)
  have nz: "\<forall>s\<in>set S. s * s + l1 \<noteq> 0"
  proof
    fix s :: real
    have "0 \<le> s * s" by simp
    with l1 show "s * s + l1 \<noteq> 0" by linarith
  qed
  have e1: "sumsq (map2 (-) (map Fin y) (mv (emb X) (map Fin bh))) = Fin rss"
    by (simp only: mv_Fin sub_Fin sumsq_Fin rss_def)
  have e2: "sumsq (map Fin bh) = Fin bss"
    by (simp only: sumsq_Fin bss_def)
  have e3: "(Fin rss + Fin l * Fin bss) / Fin (real (length X + ncols X + 2)) = Fin s2"
    using m by (simp add: s2_def m_def)
  have e4: "Fin bss / Fin s2 + Fin 2 * Fin b = Fin d"
    using s2 by (simp add: d_def)
  have e5: "(Fin (real (ncols X)) + Fin 2 * Fin (real (ncols X) / 2) - Fin 2) / Fin d = Fin l1"
    using d by (simp add: l1_def)
  have "tune_body (tune_env_of (emb X) (map Fin y) (Fin b) (emb U) (map Fin S) (emb VT))
          (map Fin bh) (Fin l)
        = (Fin s2, Fin l1, fit (emb U) (map Fin S) (transpose (emb VT)) (map Fin y) (Fin l1))"
    by (simp only: tune_body_def tune_env_of_def Let_def tune_env.select_convs
        length_emb ncols_emb e1 e2 e3 e4 e5)
  then have "tune_body (tune_env_of (emb X) (map Fin y) (Fin b) (emb U) (map Fin S) (emb VT))
          (map Fin bh) (Fin l)
        = (Fin s2, Fin l1, map Fin (fit_exact U S VT y l1))"
    by (simp only: fit_Fin[OF nz])
  moreover have "sumsq (map Fin bh) / Fin s2 + Fin 2 * Fin b = Fin (sumsq bh / s2 + 2 * b)"
    using e4 by (simp add: e2 d_def bss_def)
  moreover have "0 < sumsq bh / s2 + 2 * b" using d by (simp add: d_def bss_def)
  ultimately show ?thesis using s2 l1 by blast
qed


lemma tuneridge_result:
  assumes r0: "r2 \<noteq> PyFloat (Fin 0)" and sv: "svd x = Inr (u, s, vt)" and len: "length y = length u"
  shows "\<exists>j<100. \<exists>B.
           tuneridge svd x y r2
             = Inr (B,
                    fst (snd (pass_at (tune_env_of x y (Fin 1 / np_sqrt (Fin 1 / value_of r2 - Fin 1)) u s vt)
                                (fit u s (transpose vt) y (Fin 1)) (Fin 1) j)),
                    fst (pass_at (tune_env_of x y (Fin 1 / np_sqrt (Fin 1 / value_of r2 - Fin 1)) u s vt)
                                (fit u s (transpose vt) y (Fin 1)) (Fin 1) j))
           \<and> (B = fst (tune_iter (tune_env_of x y (Fin 1 / np_sqrt (Fin 1 / value_of r2 - Fin 1)) u s vt)
                                (fit u s (transpose vt) y (Fin 1)) (Fin 1) j)
              \<or> B = snd (snd (pass_at (tune_env_of x y (Fin 1 / np_sqrt (Fin 1 / value_of r2 - Fin 1)) u s vt)
                                (fit u s (transpose vt) y (Fin 1)) (Fin 1) j)))"
proof -
  define E where "E = tune_env_of x y (Fin 1 / np_sqrt (Fin 1 / value_of r2 - Fin 1)) u s vt"
  define b0 where "b0 = fit u s (transpose vt) y (Fin 1)"
  have tr: "tuneridge svd x y r2 =
      (case tune_loop E 100 b0 (Fin 1) None of
         (bhat', lam', None) \<Rightarrow> Inl UnboundLocalError
       | (bhat', lam', Some sigma2') \<Rightarrow> Inr (bhat', lam', sigma2'))"
    unfolding E_def b0_def by (rule tuneridge_unfold[where svd = svd and x = x, OF r0 sv len])
  have "\<exists>j<100. \<exists>B. tuneridge svd x y r2
             = Inr (B, fst (snd (pass_at E b0 (Fin 1) j)), fst (pass_at E b0 (Fin 1) j))
           \<and> (B = fst (tune_iter E b0 (Fin 1) j) \<or> B = snd (snd (pass_at E b0 (Fin 1) j)))"
  proof (cases "\<exists>j. j < 100 \<and> conv_at E b0 (Fin 1) j")
    case True
    define j where "j = (LEAST j. j < 100 \<and> conv_at E b0 (Fin 1) j)"
    have j: "j < 100 \<and> conv_at E b0 (Fin 1) j"
      unfolding j_def by (rule LeastI_ex[OF True])
    have least: "\<forall>i<j. \<not> conv_at E b0 (Fin 1) i"
    proof (intro allI impI notI)
      fix i assume "i < j" "conv_at E b0 (Fin 1) i"
      with j have "i < 100 \<and> conv_at E b0 (Fin 1) i" by simp
      then have "j \<le> i" unfolding j_def by (rule Least_le)
      with \<open>i < j\<close> show False by simp
    qed
    have j100: "j < 100" and cj: "conv_at E b0 (Fin 1) j" using j by simp_all
    have loop: "tune_loop E 100 b0 (Fin 1) None =
        (fst (tune_iter E b0 (Fin 1) j), fst (snd (pass_at E b0 (Fin 1) j)),
         Some (fst (pass_at E b0 (Fin 1) j)))"
      by (rule tune_loop_break[OF least cj j100])
    have "tuneridge svd x y r2 = Inr (fst (tune_iter E b0 (Fin 1) j),
             fst (snd (pass_at E b0 (Fin 1) j)), fst (pass_at E b0 (Fin 1) j))"
      unfolding tr loop by simp
    with j100 show ?thesis by blast
  next
    case False
    then have nc: "\<forall>i<Suc 99. \<not> conv_at E b0 (Fin 1) i" by simp
    have "tune_loop E (Suc 99) b0 (Fin 1) None =
        (fst (tune_iter E b0 (Fin 1) (Suc 99)), snd (tune_iter E b0 (Fin 1) (Suc 99)),
         Some (fst (pass_at E b0 (Fin 1) 99)))"
      by (rule tune_loop_exhaust[OF nc])
    moreover have "Suc 99 = 100" by simp
    ultimately have loop: "tune_loop E 100 b0 (Fin 1) None =
        (fst (tune_iter E b0 (Fin 1) (Suc 99)), snd (tune_iter E b0 (Fin 1) (Suc 99)),
         Some (fst (pass_at E b0 (Fin 1) 99)))"
      by (simp only:)
    have it: "tune_iter E b0 (Fin 1) (Suc 99)
              = (snd (snd (pass_at E b0 (Fin 1) 99)), fst (snd (pass_at E b0 (Fin 1) 99)))"
      unfolding tune_iter_Suc pass_at_def by (simp split: prod.splits)
    have "tuneridge svd x y r2 = Inr (snd (snd (pass_at E b0 (Fin 1) 99)),
             fst (snd (pass_at E b0 (Fin 1) 99)), fst (pass_at E b0 (Fin 1) 99))"
      unfolding tr loop it by simp
    moreover have "(99::nat) < 100" by simp
    ultimately show ?thesis by blast
  qed
  then show ?thesis unfolding E_def b0_def .
qed

lemma tune_iter_exact:
  fixes X U VT :: "real list list" and y S :: "real list" and b :: real
  assumes b: "0 < b" and p: "2 \<le> ncols X"
    and len: "length y = length X" and y: "\<exists>e\<in>set y. e \<noteq> 0"
  shows "\<exists>bh l. tune_iter (tune_env_of (emb X) (map Fin y) (Fin b) (emb U) (map Fin S) (emb VT))
                   (fit (emb U) (map Fin S) (transpose (emb VT)) (map Fin y) (Fin 1)) (Fin 1) k
                 = (map Fin bh, Fin l) \<and> 0 < l"
proof (induction k)
  case 0
  have nz: "\<forall>s\<in>set S. s * s + 1 \<noteq> 0"
  proof
    fix s :: real
    have "0 \<le> s * s" by simp
    then show "s * s + 1 \<noteq> 0" by linarith
  qed
  have "tune_iter (tune_env_of (emb X) (map Fin y) (Fin b) (emb U) (map Fin S) (emb VT))
                   (fit (emb U) (map Fin S) (transpose (emb VT)) (map Fin y) (Fin 1)) (Fin 1) 0
        = (map Fin (fit_exact U S VT y 1), Fin 1)"
    by (simp only: tune_iter.simps fit_Fin[OF nz])
  moreover have "(0::real) < 1" by simp
  ultimately show ?case by blast
next
  case (Suc k)
  then obtain bh l where it: "tune_iter (tune_env_of (emb X) (map Fin y) (Fin b) (emb U) (map Fin S) (emb VT))
                   (fit (emb U) (map Fin S) (transpose (emb VT)) (map Fin y) (Fin 1)) (Fin 1) k
                 = (map Fin bh, Fin l)" and l: "0 < l" by blast
  from tune_body_exact[OF l b p len y, of U S VT bh]
  obtain s2 l1 where body: "tune_body (tune_env_of (emb X) (map Fin y) (Fin b) (emb U) (map Fin S) (emb VT))
                     (map Fin bh) (Fin l)
                   = (Fin s2, Fin l1, map Fin (fit_exact U S VT y l1))" and l1: "0 < l1" by blast
  have "tune_iter (tune_env_of (emb X) (map Fin y) (Fin b) (emb U) (map Fin S) (emb VT))
                   (fit (emb U) (map Fin S) (transpose (emb VT)) (map Fin y) (Fin 1)) (Fin 1) (Suc k)
        = (map Fin (fit_exact U S VT y l1), Fin l1)"
    by (simp only: tune_iter_Suc it body prod.case)
  with l1 show ?case by blast
qed

text \<open>
  Claim C10 says that for every finite \<open>x\<close> with at least one column, nonzero \<open>y\<close> and
  \<open>r2\<close> strictly between 0 and 1 the variance stays strictly positive through the loop.
  With one column the numerator \<open>p + 2a - 2\<close> of the penalty update is 0, so the penalty is
  0 from the first pass on and the term \<open>lam*bss\<close> no longer keeps the variance positive:
  for the 1 by 1 matrix \<open>(1)\<close>, \<open>y = (1)\<close> and \<open>r2 = 0.5\<close> the second pass refits exactly,
  its residual is 0, and the variance returned is 0.
\<close>

theorem tuneridge_sigma2_zero_counterexample:
  "tuneridge svd_tab [[Fin 1]] [Fin 1] (PyFloat (Fin (1/2))) = Inr ([Fin 1], Fin 0, Fin 0)"
  by (simp add: run_defs tune_loop_numeral)

text \<open>
  Claim C10, amended to at least two columns and to exact arithmetic (no rounding, no
  overflow, no underflow: a sum of squares of values that are not all 0 is positive).
  For finite \<open>x\<close> with \<open>p \<ge> 2\<close>, \<open>y\<close> with a nonzero entry and \<open>r2\<close> (a Python float or
  a numpy float64) strictly between 0 and 1, in every pass: the coefficients and
  the penalty entering the pass are finite and the penalty is positive; the variance
  computed is finite and positive; the denominator \<open>bss/sigma2 + 2b\<close> is finite and
  positive; the new penalty, which is the one passed to the refit, is finite and positive.
  The penalty and the variance returned are finite and positive.
\<close>

theorem tuneridge_loop_positive:
  fixes X U VT :: "real list list" and y S :: "real list" and r :: real
  assumes r: "0 < r" "r < 1" and rv: "value_of r2 = Fin r"
    and sv: "svd (emb X) = Inr (emb U, map Fin S, emb VT)"
    and p: "2 \<le> ncols X"
    and len: "length y = length X" "length U = length X"
    and y: "\<exists>e\<in>set y. e \<noteq> 0"
  shows "(\<forall>k. \<exists>bh l s2 l1 bh1.
            tune_iter (tune_env_of (emb X) (map Fin y) (Fin 1 / np_sqrt (Fin 1 / Fin r - Fin 1))
                         (emb U) (map Fin S) (emb VT))
                      (fit (emb U) (map Fin S) (transpose (emb VT)) (map Fin y) (Fin 1)) (Fin 1) k
              = (map Fin bh, Fin l) \<and> 0 < l \<and>
            pass_at (tune_env_of (emb X) (map Fin y) (Fin 1 / np_sqrt (Fin 1 / Fin r - Fin 1))
                         (emb U) (map Fin S) (emb VT))
                      (fit (emb U) (map Fin S) (transpose (emb VT)) (map Fin y) (Fin 1)) (Fin 1) k
              = (Fin s2, Fin l1, map Fin bh1) \<and> 0 < s2 \<and> 0 < l1 \<and>
            sumsq (map Fin bh) / Fin s2 + Fin 2 * (Fin 1 / np_sqrt (Fin 1 / Fin r - Fin 1))
              = Fin (sumsq bh / s2 + 2 * (1 / sqrt (1 / r - 1))) \<and>
            0 < sumsq bh / s2 + 2 * (1 / sqrt (1 / r - 1)))
       \<and> (\<exists>bh l s2. tuneridge svd (emb X) (map Fin y) r2 = Inr (map Fin bh, Fin l, Fin s2)
              \<and> 0 < l \<and> 0 < s2)"
proof -
  define b where "b = 1 / sqrt (1 / r - 1)"
  have bF: "Fin 1 / np_sqrt (Fin 1 / Fin r - Fin 1) = Fin b" and b: "0 < b"
    using scale_Fin[OF r] by (simp_all add: b_def)
  define E where "E = tune_env_of (emb X) (map Fin y) (Fin b) (emb U) (map Fin S) (emb VT)"
  define b0 where "b0 = fit (emb U) (map Fin S) (transpose (emb VT)) (map Fin y) (Fin 1)"
  have inv: "\<exists>bh l s2 l1 bh1. tune_iter E b0 (Fin 1) k = (map Fin bh, Fin l) \<and> 0 < l \<and>
            pass_at E b0 (Fin 1) k = (Fin s2, Fin l1, map Fin bh1) \<and> 0 < s2 \<and> 0 < l1 \<and>
            sumsq (map Fin bh) / Fin s2 + Fin 2 * Fin b = Fin (sumsq bh / s2 + 2 * b) \<and>
            0 < sumsq bh / s2 + 2 * b" for k
  proof -
    from tune_iter_exact[OF b p len(1) y, of U S VT k]
    obtain bh l where it: "tune_iter E b0 (Fin 1) k = (map Fin bh, Fin l)" and l: "0 < l"
      unfolding E_def b0_def by blast
    from tune_body_exact[OF l b p len(1) y, of U S VT bh]
    obtain s2 l1 where body: "tune_body E (map Fin bh) (Fin l)
                   = (Fin s2, Fin l1, map Fin (fit_exact U S VT y l1))"
      and pos: "0 < s2" "0 < l1"
        "sumsq (map Fin bh) / Fin s2 + Fin 2 * Fin b = Fin (sumsq bh / s2 + 2 * b)"
        "0 < sumsq bh / s2 + 2 * b"
      unfolding E_def by blast
    have "pass_at E b0 (Fin 1) k = (Fin s2, Fin l1, map Fin (fit_exact U S VT y l1))"
      by (simp only: pass_at_def it prod.case body)
    with it l pos show ?thesis by blast
  qed
  have r0: "r2 \<noteq> PyFloat (Fin 0)" using r(1) rv by auto
  have lenF: "length (map Fin y) = length (emb U)" using len by simp
  from tuneridge_result[where svd = svd and x = "emb X", OF r0 sv lenF]
  obtain j B where res: "tuneridge svd (emb X) (map Fin y) r2
             = Inr (B, fst (snd (pass_at E b0 (Fin 1) j)), fst (pass_at E b0 (Fin 1) j))"
    and B: "B = fst (tune_iter E b0 (Fin 1) j) \<or> B = snd (snd (pass_at E b0 (Fin 1) j))"
    unfolding rv bF E_def b0_def by blast
  from inv[of j] obtain bh l s2 l1 bh1 where
    j: "tune_iter E b0 (Fin 1) j = (map Fin bh, Fin l)"
       "pass_at E b0 (Fin 1) j = (Fin s2, Fin l1, map Fin bh1)" "0 < s2" "0 < l1"
    by blast
  from B j have "B = map Fin bh \<or> B = map Fin bh1" by simp
  with res j have "\<exists>bh l s2. tuneridge svd (emb X) (map Fin y) r2 = Inr (map Fin bh, Fin l, Fin s2)
              \<and> 0 < l \<and> 0 < s2"
    by auto
  with inv show ?thesis unfolding bF E_def b0_def b_def by blast
qed


theorem tuneridge_loop_positive_witness:
  "(0::real) < 1/2 \<and> (1/2::real) < 1 \<and> value_of (PyFloat (Fin (1/2))) = Fin (1/2)
   \<and> svd_tab (emb [[1, 0], [0, 1]]) = Inr (emb [[1, 0], [0, 1]], map Fin [1, 1], emb [[1, 0], [0, 1]])
   \<and> 2 \<le> ncols [[1, 0], [0, 1::real]]
   \<and> length [1/100, 0::real] = length [[1, 0], [0, 1::real]]
   \<and> (\<exists>e\<in>set [1/100, 0::real]. e \<noteq> 0)
   \<and> (\<exists>bh l s2. tuneridge svd_tab (emb [[1, 0], [0, 1]]) (map Fin [1/100, 0]) (PyFloat (Fin (1/2)))
                      = Inr (map Fin bh, Fin l, Fin s2) \<and> 0 < l \<and> 0 < s2)"
proof -
  have h1: "(0::real) < 1/2" and h2: "(1/2::real) < 1" by simp_all
  have hv: "value_of (PyFloat (Fin (1/2))) = Fin (1/2)" by simp
  have h3: "svd_tab (emb [[1, 0], [0, 1]])
            = Inr (emb [[1, 0], [0, 1]], map Fin [1, 1], emb [[1, 0], [0, 1]])"
    by (simp add: svd_tab_def emb_def)
  have h4: "2 \<le> ncols [[1, 0], [0, 1::real]]" by (simp add: ncols_def)
  have h5: "length [1/100, 0::real] = length [[1, 0], [0, 1::real]]" by simp
  have h6: "\<exists>e\<in>set [1/100, 0::real]. e \<noteq> 0" by simp
  have h5b: "length [[1, 0], [0, 1::real]] = length [[1, 0], [0, 1::real]]" by simp
  from tuneridge_loop_positive[where svd = svd_tab, OF h1 h2 hv h3 h4 h5 h5b h6]
  have "\<exists>bh l s2. tuneridge svd_tab (emb [[1, 0], [0, 1]]) (map Fin [1/100, 0]) (PyFloat (Fin (1/2)))
                      = Inr (map Fin bh, Fin l, Fin s2) \<and> 0 < l \<and> 0 < s2"
    by blast
  with h1 h2 hv h3 h4 h5 h6 show ?thesis by blast
qed

section \<open>Shrinkage\<close>

lemma sum_list_nth_sum: "sum_list xs = (\<Sum>i<length xs. xs ! i)" for xs :: "real list"
  by (simp add: sum_list_sum_nth atLeast0LessThan)

lemma dot_sum:
  fixes a b :: "real list"
  assumes "length a = length b"
  shows "dot a b = (\<Sum>i<length a. a ! i * b ! i)"
  using assms by (simp add: dot_def sum_list_nth_sum)

lemma sumsq_sum: "sumsq w = (\<Sum>i<length w. w ! i * w ! i)" for w :: "real list"
  by (simp add: sumsq_def sum_list_nth_sum)

lemma mv_nth: "i < length A \<Longrightarrow> mv A w ! i = dot (A ! i) w"
  by (simp add: mv_def)

lemma transpose_nth:
  assumes "rect n k A" and "0 < n" and "j < k"
  shows "transpose A ! j = map (\<lambda>i. A ! i ! j) [0..<n]"
  unfolding transpose_rect[OF assms(1,2)] using assms(3) by simp

lemma length_transpose_rect:
  assumes "rect n k A" and "0 < n"
  shows "length (transpose A) = k"
  unfolding transpose_rect[OF assms] by simp

text \<open>Entries of \<open>V w\<close> for \<open>V = VT.T\<close>.\<close>

lemma mv_transpose_nth:
  fixes A :: "real list list"
  assumes A: "rect k p A" and k: "0 < k" and w: "length w = k" and j: "j < p"
  shows "mv (transpose A) w ! j = (\<Sum>l<k. A ! l ! j * w ! l)"
proof -
  have "mv (transpose A) w ! j = dot (transpose A ! j) w"
    using j length_transpose_rect[OF A k] by (simp add: mv_nth)
  also have "\<dots> = dot (map (\<lambda>l. A ! l ! j) [0..<k]) w"
    by (simp only: transpose_nth[OF A k j])
  also have "\<dots> = (\<Sum>l<k. A ! l ! j * w ! l)"
    using w by (simp add: dot_sum)
  finally show ?thesis .
qed

lemma orthonormal_rows_sum:
  assumes A: "rect k p A" and o: "orthonormal_rows A" and l: "l < k" and m: "m < k"
  shows "(\<Sum>j<p. A ! l ! j * A ! m ! j) = (if l = m then 1 else 0)"
proof -
  have len: "length A = k" using A by (simp add: rect_def)
  have "length (A ! l) = p" "length (A ! m) = p" using rect_nth[OF A] l m by simp_all
  then have "dot (A ! l) (A ! m) = (\<Sum>j<p. A ! l ! j * A ! m ! j)"
    by (simp add: dot_sum)
  with o l m len show ?thesis by (simp add: orthonormal_rows_def)
qed

lemma sum_delta_lt:
  fixes f :: "nat \<Rightarrow> real"
  assumes "x < k"
  shows "(\<Sum>m<k. f m * (if x = m then 1 else 0)) = f x"
proof -
  have "(\<Sum>m<k. f m * (if x = m then 1 else 0)) = (\<Sum>m<k. if x = m then f m else 0)"
    by (intro sum.cong refl) simp
  also have "\<dots> = f x" using assms by (simp add: sum.delta)
  finally show ?thesis .
qed

lemma sumsq_mv_orthonormal:
  fixes A :: "real list list"
  assumes A: "rect k p A" and o: "orthonormal_rows A" and k: "0 < k" and w: "length w = k"
  shows "sumsq (mv (transpose A) w) = sumsq w"
proof -
  have len: "length (mv (transpose A) w) = p"
    using length_transpose_rect[OF A k] by simp
  have "sumsq (mv (transpose A) w)
        = (\<Sum>j<p. (\<Sum>l<k. A ! l ! j * w ! l) * (\<Sum>m<k. A ! m ! j * w ! m))"
    unfolding sumsq_sum len
    by (rule sum.cong) (simp_all add: mv_transpose_nth[OF A k w])
  also have "\<dots> = (\<Sum>j<p. \<Sum>l<k. \<Sum>m<k. (w ! l * w ! m) * (A ! l ! j * A ! m ! j))"
    by (simp add: sum_product ac_simps)
  also have "\<dots> = (\<Sum>l<k. \<Sum>j<p. \<Sum>m<k. (w ! l * w ! m) * (A ! l ! j * A ! m ! j))"
    by (rule sum.swap)
  also have "\<dots> = (\<Sum>l<k. \<Sum>m<k. \<Sum>j<p. (w ! l * w ! m) * (A ! l ! j * A ! m ! j))"
    by (rule sum.cong[OF refl]) (rule sum.swap)
  also have "\<dots> = (\<Sum>l<k. \<Sum>m<k. (w ! l * w ! m) * (\<Sum>j<p. A ! l ! j * A ! m ! j))"
    by (simp add: sum_distrib_left)
  also have "\<dots> = (\<Sum>l<k. \<Sum>m<k. (w ! l * w ! m) * (if l = m then 1 else 0))"
    by (intro sum.cong refl) (simp add: orthonormal_rows_sum[OF A o])
  also have "\<dots> = (\<Sum>l<k. w ! l * w ! l)"
    by (intro sum.cong refl) (simp add: sum_delta_lt)
  also have "\<dots> = sumsq w"
    using w by (simp add: sumsq_sum)
  finally show ?thesis .
qed


lemma thin_svd_shapes:
  assumes "thin_svd X U S VT"
  shows "rect (length X) (length S) U" and "rect (length S) (ncols X) VT"
    and "orthonormal_rows VT" and "orthonormal_rows (transpose U)"
    and "length S = min (length X) (ncols X)" and "rect (length X) (ncols X) X"
  using assms by (simp_all add: thin_svd_def Let_def)

lemma thin_svd_coef_length:
  assumes "thin_svd X U S VT"
  shows "length (mv (transpose U) y) = length S"
proof (cases "length S = 0")
  case True
  have U: "rect (length X) 0 U" using thin_svd_shapes(1)[OF assms] True by simp
  then have "\<forall>r\<in>set U. r = []" by (simp add: rect_def list_all_iff)
  then have "transpose U = []"
    by (induction U) simp_all
  with True show ?thesis by simp
next
  case False
  then have "0 < length X" using thin_svd_shapes(5)[OF assms] by simp
  from length_transpose_rect[OF thin_svd_shapes(1)[OF assms] this] show ?thesis by simp
qed

text \<open>The squared norm of the exact solve, one term for each singular value.\<close>

lemma fit_exact_sumsq:
  assumes "thin_svd X U S VT"
  shows "sumsq (fit_exact U S VT y l)
         = (\<Sum>i<length S. (mv (transpose U) y ! i * (S ! i / (S ! i * S ! i + l)))\<^sup>2)"
proof -
  define c where "c = mv (transpose U) y"
  define w where "w = map2 (*) c (map (\<lambda>s. s / (s * s + l)) S)"
  have lc: "length c = length S" unfolding c_def by (rule thin_svd_coef_length[OF assms])
  then have lw: "length w = length S" by (simp add: w_def)
  have wi: "w ! i = c ! i * (S ! i / (S ! i * S ! i + l))" if "i < length S" for i
    using that lc by (simp add: w_def)
  have "sumsq (mv (transpose VT) w) = sumsq w"
  proof (cases "length S = 0")
    case True
    then have "VT = []" using thin_svd_shapes(2)[OF assms] by (simp add: rect_def)
    with True lw show ?thesis by (simp add: mv_def)
  next
    case False
    then have k: "0 < length S" by simp
    show ?thesis
      by (rule sumsq_mv_orthonormal[OF thin_svd_shapes(2)[OF assms] thin_svd_shapes(3)[OF assms] k lw])
  qed
  also have "\<dots> = (\<Sum>i<length S. w ! i * w ! i)" by (simp add: sumsq_sum lw)
  also have "\<dots> = (\<Sum>i<length S. (c ! i * (S ! i / (S ! i * S ! i + l)))\<^sup>2)"
    by (intro sum.cong refl) (simp add: wi power2_eq_square)
  finally show ?thesis by (simp add: fit_exact_def w_def c_def)
qed

lemma shrink_mono:
  fixes s c l1 l2 :: real
  assumes "0 \<le> l1" and "l1 \<le> l2" and "s * s + l1 \<noteq> 0"
  shows "(c * (s / (s * s + l2)))\<^sup>2 \<le> (c * (s / (s * s + l1)))\<^sup>2"
proof -
  have "0 \<le> s * s" by simp
  with assms have d1: "0 < s * s + l1" by linarith
  with assms have d2: "0 < s * s + l2" by linarith
  have "\<bar>s\<bar> / (s * s + l2) \<le> \<bar>s\<bar> / (s * s + l1)"
    using d1 assms(2) by (intro divide_left_mono) (simp_all add: d2)
  then have "\<bar>s / (s * s + l2)\<bar> \<le> \<bar>s / (s * s + l1)\<bar>"
    using d1 d2 by (simp add: abs_divide)
  then have "\<bar>c\<bar> * \<bar>s / (s * s + l2)\<bar> \<le> \<bar>c\<bar> * \<bar>s / (s * s + l1)\<bar>"
    by (intro mult_left_mono) simp_all
  then have "\<bar>c * (s / (s * s + l2))\<bar> \<le> \<bar>c * (s / (s * s + l1))\<bar>"
    by (simp add: abs_mult)
  then show ?thesis by (simp only: abs_le_square_iff)
qed

lemma shrink_bound:
  fixes s c l :: real
  assumes "0 < l"
  shows "(c * (s / (s * s + l)))\<^sup>2 \<le> (c * s)\<^sup>2 / l\<^sup>2"
proof -
  have s2: "0 \<le> s * s" by simp
  with assms have d: "0 < s * s + l" by linarith
  have "\<bar>s\<bar> / (s * s + l) \<le> \<bar>s\<bar> / l"
    using assms s2 by (intro divide_left_mono) (simp_all add: d)
  then have "\<bar>s / (s * s + l)\<bar> \<le> \<bar>s / l\<bar>"
    using d assms by (simp add: abs_divide)
  then have "\<bar>c\<bar> * \<bar>s / (s * s + l)\<bar> \<le> \<bar>c\<bar> * \<bar>s / l\<bar>"
    by (intro mult_left_mono) simp_all
  then have "\<bar>c * (s / (s * s + l))\<bar> \<le> \<bar>c * s / l\<bar>"
    by (simp add: abs_mult)
  then have "(c * (s / (s * s + l)))\<^sup>2 \<le> (c * s / l)\<^sup>2"
    by (simp only: abs_le_square_iff)
  then show ?thesis by (simp add: power_divide)
qed

lemma enorm_Fin: "enorm (map Fin b) = Fin (sqrt (sumsq b))"
  using sumsq_nonneg[of b] by (simp add: enorm_def sumsq_Fin)

lemma ridge_Fin:
  assumes "svd x = Inr (emb U, map Fin S, emb VT)" and "length y = length U"
    and "\<forall>s\<in>set S. s * s + l \<noteq> 0"
  shows "ridge svd x (map Fin y) (Fin l) = Inr (map Fin (fit_exact U S VT y l))"
proof -
  have "ridge svd x (map Fin y) (Fin l)
        = Inr (fit (emb U) (map Fin S) (transpose (emb VT)) (map Fin y) (Fin l))"
    using assms(1,2) by (simp add: ridge_def fit_def)
  then show ?thesis by (simp only: fit_Fin[OF assms(3)])
qed

lemma pos_penalty_nz: "0 < l \<Longrightarrow> \<forall>s\<in>set S. s * s + l \<noteq> 0" for l :: real
proof
  fix s :: real assume "0 < l"
  moreover have "0 \<le> s * s" by simp
  ultimately show "s * s + l \<noteq> 0" by linarith
qed

text \<open>
  Claim C6 says that for every decomposition the norm of the solve does not increase
  with the penalty over the whole range from 0 on. At penalty 0 with a zero singular value
  the solve is nan (claim C3), and no comparison with nan holds: for the 1 by 1 matrix
  \<open>(0)\<close> the norm at penalty 1 is 0 and is not below or equal to the norm at penalty 0.
\<close>

theorem ridge_shrinkage_counterexample:
  "ridge svd_tab [[Fin 0]] [Fin 1] (Fin 0) = Inr [NaN]
   \<and> ridge svd_tab [[Fin 0]] [Fin 1] (Fin 1) = Inr [Fin 0]
   \<and> \<not> enorm [Fin 0] \<le> enorm [NaN]"
  by (simp add: run_defs enorm_def)

text \<open>
  Claim C6, amended to the penalties at which no weight is \<open>0/0\<close>. For a decomposition of
  a finite \<open>x\<close> and finite \<open>y\<close>, in exact arithmetic: if \<open>0 \<le> l1 \<le> l2\<close> and
  \<open>s^2 + l1\<close> is nonzero for every singular value (every \<open>l1 > 0\<close>; \<open>l1 = 0\<close> when no
  singular value is 0), the norm of the solve at \<open>l2\<close> is at most the norm at \<open>l1\<close>; and
  the norm of the solve tends to 0 as the penalty grows: below every \<open>e > 0\<close> from some
  penalty on.
\<close>

theorem ridge_shrinkage:
  assumes D: "thin_svd X U S VT" and sv: "svd (emb X) = Inr (emb U, map Fin S, emb VT)"
    and len: "length y = length X"
  shows "(\<forall>l1 l2. 0 \<le> l1 \<and> l1 \<le> l2 \<and> (\<forall>s\<in>set S. s * s + l1 \<noteq> 0) \<longrightarrow>
            (\<exists>b1 b2. ridge svd (emb X) (map Fin y) (Fin l1) = Inr b1
                   \<and> ridge svd (emb X) (map Fin y) (Fin l2) = Inr b2
                   \<and> enorm b2 \<le> enorm b1))
       \<and> (\<forall>e>0. \<exists>L. \<forall>l\<ge>L. \<exists>b. ridge svd (emb X) (map Fin y) (Fin l) = Inr b \<and> enorm b < Fin e)"
proof (intro conjI allI impI)
  fix l1 l2 :: real
  assume a: "0 \<le> l1 \<and> l1 \<le> l2 \<and> (\<forall>s\<in>set S. s * s + l1 \<noteq> 0)"
  have lenU: "length y = length U" using len thin_svd_shapes(1)[OF D] by (simp add: rect_def)
  have nz1: "\<forall>s\<in>set S. s * s + l1 \<noteq> 0" using a by simp
  have nz2: "\<forall>s\<in>set S. s * s + l2 \<noteq> 0"
  proof
    fix s assume s: "s \<in> set S"
    have "0 \<le> s * s" by simp
    with a s have "0 < s * s + l1" by (metis add_nonneg_nonneg less_le)
    with a show "s * s + l2 \<noteq> 0" by linarith
  qed
  have r1: "ridge svd (emb X) (map Fin y) (Fin l1) = Inr (map Fin (fit_exact U S VT y l1))"
    by (rule ridge_Fin[where svd = svd and x = "emb X", OF sv lenU nz1])
  have r2: "ridge svd (emb X) (map Fin y) (Fin l2) = Inr (map Fin (fit_exact U S VT y l2))"
    by (rule ridge_Fin[where svd = svd and x = "emb X", OF sv lenU nz2])
  have "sumsq (fit_exact U S VT y l2) \<le> sumsq (fit_exact U S VT y l1)"
    unfolding fit_exact_sumsq[OF D]
  proof (rule sum_mono)
    fix i assume "i \<in> {..<length S}"
    then have "S ! i \<in> set S" by simp
    with nz1 have "S ! i * S ! i + l1 \<noteq> 0" by blast
    with a show "(mv (transpose U) y ! i * (S ! i / (S ! i * S ! i + l2)))\<^sup>2
           \<le> (mv (transpose U) y ! i * (S ! i / (S ! i * S ! i + l1)))\<^sup>2"
      by (intro shrink_mono) simp_all
  qed
  then have "enorm (map Fin (fit_exact U S VT y l2)) \<le> enorm (map Fin (fit_exact U S VT y l1))"
    by (simp add: enorm_Fin)
  with r1 r2 show "\<exists>b1 b2. ridge svd (emb X) (map Fin y) (Fin l1) = Inr b1
                   \<and> ridge svd (emb X) (map Fin y) (Fin l2) = Inr b2
                   \<and> enorm b2 \<le> enorm b1"
    by blast
next
  fix e :: real assume e: "0 < e"
  have lenU: "length y = length U" using len thin_svd_shapes(1)[OF D] by (simp add: rect_def)
  define K where "K = (\<Sum>i<length S. (mv (transpose U) y ! i * S ! i)\<^sup>2)"
  have K0: "0 \<le> K" unfolding K_def by (rule sum_nonneg) simp
  define L where "L = sqrt K / e + 1"
  have L: "0 < L" using K0 e by (simp add: L_def add_nonneg_pos)
  have "\<exists>b. ridge svd (emb X) (map Fin y) (Fin l) = Inr b \<and> enorm b < Fin e" if l: "L \<le> l" for l
  proof -
    have lpos: "0 < l" using L l by simp
    have r: "ridge svd (emb X) (map Fin y) (Fin l) = Inr (map Fin (fit_exact U S VT y l))"
      by (rule ridge_Fin[where svd = svd and x = "emb X", OF sv lenU pos_penalty_nz[OF lpos]])
    have "sumsq (fit_exact U S VT y l) \<le> (\<Sum>i<length S. (mv (transpose U) y ! i * S ! i)\<^sup>2 / l\<^sup>2)"
      unfolding fit_exact_sumsq[OF D]
      by (rule sum_mono) (rule shrink_bound[OF lpos])
    also have "\<dots> = K / l\<^sup>2" by (simp add: K_def sum_divide_distrib)
    finally have "sqrt (sumsq (fit_exact U S VT y l)) \<le> sqrt (K / l\<^sup>2)" by simp
    also have "\<dots> = sqrt K / l" using lpos by (simp add: real_sqrt_divide)
    also have "\<dots> < e"
    proof -
      have "sqrt K < e * L" using e by (simp add: L_def field_simps)
      also have "\<dots> \<le> e * l" using e l by simp
      finally show ?thesis using lpos by (simp add: field_simps)
    qed
    finally have "enorm (map Fin (fit_exact U S VT y l)) < Fin e" by (simp add: enorm_Fin)
    with r show ?thesis by blast
  qed
  then show "\<exists>L. \<forall>l\<ge>L. \<exists>b. ridge svd (emb X) (map Fin y) (Fin l) = Inr b \<and> enorm b < Fin e"
    by blast
qed


lemma thin_svd_identity2: "thin_svd [[1, 0], [0, 1]] [[1, 0], [0, 1]] [1, 1] [[1, 0], [0, 1]]"
  by (simp add: thin_svd_def Let_def rect_def ncols_def orthonormal_rows_def dot_def
      numeral_2_eq_2 All_less_Suc)

text \<open>The other entries of the table of decompositions satisfy the contract as well.\<close>

lemma svd_tab_decompositions:
  "svd_tab (emb [[1, 0]]) = Inr (emb [[1]], map Fin [1], emb [[1, 0]]) \<and> thin_svd [[1, 0]] [[1]] [1] [[1, 0]]"
  "svd_tab (emb [[1]]) = Inr (emb [[1]], map Fin [1], emb [[1]]) \<and> thin_svd [[1]] [[1]] [1] [[1]]"
  "svd_tab (emb [[0]]) = Inr (emb [[1]], map Fin [0], emb [[1]]) \<and> thin_svd [[0]] [[1]] [0] [[1]]"
  by (simp_all add: svd_tab_def emb_def thin_svd_def Let_def rect_def ncols_def
      orthonormal_rows_def dot_def numeral_2_eq_2 All_less_Suc)

theorem ridge_shrinkage_witness:
  "thin_svd [[1, 0], [0, 1]] [[1, 0], [0, 1]] [1, 1] [[1, 0], [0, 1]]
   \<and> svd_tab (emb [[1, 0], [0, 1]]) = Inr (emb [[1, 0], [0, 1]], map Fin [1, 1], emb [[1, 0], [0, 1]])
   \<and> length [1/100, 0::real] = length [[1, 0], [0, 1::real]]
   \<and> (0::real) \<le> 0 \<and> (0::real) \<le> 1 \<and> (1::real) * 1 + 0 \<noteq> 0
   \<and> (\<exists>b1 b2. ridge svd_tab (emb [[1, 0], [0, 1]]) (map Fin [1/100, 0]) (Fin 0) = Inr b1
              \<and> ridge svd_tab (emb [[1, 0], [0, 1]]) (map Fin [1/100, 0]) (Fin 1) = Inr b2
              \<and> enorm b2 \<le> enorm b1)
   \<and> (\<exists>L. \<forall>l\<ge>L. \<exists>b. ridge svd_tab (emb [[1, 0], [0, 1]]) (map Fin [1/100, 0]) (Fin l) = Inr b
              \<and> enorm b < Fin 1)"
proof -
  have h1: "thin_svd [[1, 0], [0, 1]] [[1, 0], [0, 1]] [1, 1] [[1, 0], [0, 1]]"
    by (rule thin_svd_identity2)
  have h2: "svd_tab (emb [[1, 0], [0, 1]])
            = Inr (emb [[1, 0], [0, 1]], map Fin [1, 1], emb [[1, 0], [0, 1]])"
    by (simp add: svd_tab_def emb_def)
  have h3: "length [1/100, 0::real] = length [[1, 0], [0, 1::real]]" by simp
  have h4: "(0::real) \<le> 0 \<and> (0::real) \<le> 1 \<and> (\<forall>s\<in>set [1, 1::real]. s * s + 0 \<noteq> 0)" by simp
  note t = ridge_shrinkage[where svd = svd_tab, OF h1 h2 h3]
  from t h4 have a: "\<exists>b1 b2. ridge svd_tab (emb [[1, 0], [0, 1]]) (map Fin [1/100, 0]) (Fin 0) = Inr b1
              \<and> ridge svd_tab (emb [[1, 0], [0, 1]]) (map Fin [1/100, 0]) (Fin 1) = Inr b2
              \<and> enorm b2 \<le> enorm b1"
    by blast
  have "(0::real) < 1" by simp
  with t have b: "\<exists>L. \<forall>l\<ge>L. \<exists>b. ridge svd_tab (emb [[1, 0], [0, 1]]) (map Fin [1/100, 0]) (Fin l) = Inr b
              \<and> enorm b < Fin 1"
    by blast
  have h5: "(1::real) * 1 + 0 \<noteq> 0" by simp
  from h1 h2 h3 h4 h5 a b show ?thesis by blast
qed

section \<open>Penalty 0 and least squares\<close>

lemma thin_svd_entry:
  assumes "thin_svd X U S VT" and "i < length X" and "j < ncols X"
  shows "X ! i ! j = (\<Sum>l<length S. U ! i ! l * S ! l * VT ! l ! j)"
  using assms by (simp add: thin_svd_def Let_def)

lemma mv_sum:
  fixes A :: "real list list"
  assumes "rect n p A" and "length w = p" and "i < n"
  shows "mv A w ! i = (\<Sum>j<p. A ! i ! j * w ! j)"
proof -
  have "length A = n" using assms(1) by (simp add: rect_def)
  moreover have "length (A ! i) = p" using rect_nth[OF assms(1,3)] .
  ultimately show ?thesis using assms(2,3) by (simp add: mv_nth dot_sum)
qed

text \<open>\<open>X w = U diag(S) (VT w)\<close>, entry by entry.\<close>

lemma thin_svd_apply:
  assumes D: "thin_svd X U S VT" and w: "length w = ncols X" and i: "i < length X"
  shows "mv X w ! i = (\<Sum>m<length S. U ! i ! m * S ! m * (\<Sum>j<ncols X. VT ! m ! j * w ! j))"
proof -
  have "mv X w ! i = (\<Sum>j<ncols X. X ! i ! j * w ! j)"
    by (rule mv_sum[OF thin_svd_shapes(6)[OF D] w i])
  also have "\<dots> = (\<Sum>j<ncols X. \<Sum>m<length S. U ! i ! m * S ! m * (VT ! m ! j * w ! j))"
    by (intro sum.cong refl) (simp add: thin_svd_entry[OF D i] sum_distrib_right mult.assoc)
  also have "\<dots> = (\<Sum>m<length S. \<Sum>j<ncols X. U ! i ! m * S ! m * (VT ! m ! j * w ! j))"
    by (rule sum.swap)
  also have "\<dots> = (\<Sum>m<length S. U ! i ! m * S ! m * (\<Sum>j<ncols X. VT ! m ! j * w ! j))"
    by (simp add: sum_distrib_left)
  finally show ?thesis .
qed

text \<open>\<open>X^T r = V diag(S) (U^T r)\<close>, entry by entry.\<close>

lemma thin_svd_apply_transposed:
  assumes D: "thin_svd X U S VT" and j: "j < ncols X"
  shows "(\<Sum>i<length X. X ! i ! j * r i)
         = (\<Sum>m<length S. S ! m * VT ! m ! j * (\<Sum>i<length X. U ! i ! m * r i))"
proof -
  have "(\<Sum>i<length X. X ! i ! j * r i)
        = (\<Sum>i<length X. \<Sum>m<length S. S ! m * VT ! m ! j * (U ! i ! m * r i))"
    by (intro sum.cong refl)
      (simp add: thin_svd_entry[OF D _ j] sum_distrib_left sum_distrib_right ac_simps)
  also have "\<dots> = (\<Sum>m<length S. \<Sum>i<length X. S ! m * VT ! m ! j * (U ! i ! m * r i))"
    by (rule sum.swap)
  also have "\<dots> = (\<Sum>m<length S. S ! m * VT ! m ! j * (\<Sum>i<length X. U ! i ! m * r i))"
    by (simp add: sum_distrib_left)
  finally show ?thesis .
qed

text \<open>The columns of \<open>U\<close> are orthonormal.\<close>

lemma thin_svd_U_orth:
  assumes D: "thin_svd X U S VT" and a: "a < length S" and b: "b < length S"
  shows "(\<Sum>i<length X. U ! i ! a * U ! i ! b) = (if a = b then 1 else 0)"
proof -
  have n: "0 < length X" using a thin_svd_shapes(5)[OF D] by (cases X) simp_all
  note U = thin_svd_shapes(1)[OF D]
  have len: "length (transpose U) = length S" by (rule length_transpose_rect[OF U n])
  have "dot (transpose U ! a) (transpose U ! b) = (\<Sum>i<length X. U ! i ! a * U ! i ! b)"
    by (simp add: transpose_nth[OF U n a] transpose_nth[OF U n b] dot_sum)
  moreover have "dot (transpose U ! a) (transpose U ! b) = (if a = b then 1 else 0)"
    using thin_svd_shapes(4)[OF D] a b len by (simp add: orthonormal_rows_def)
  ultimately show ?thesis by simp
qed

text \<open>\<open>VT (V w) = w\<close>.\<close>

lemma thin_svd_VT_V:
  assumes D: "thin_svd X U S VT" and w: "length w = length S" and m: "m < length S"
  shows "(\<Sum>j<ncols X. VT ! m ! j * mv (transpose VT) w ! j) = w ! m"
proof -
  have k: "0 < length S" using m by (cases S) simp_all
  note VT = thin_svd_shapes(2)[OF D]
  have "(\<Sum>j<ncols X. VT ! m ! j * mv (transpose VT) w ! j)
        = (\<Sum>j<ncols X. \<Sum>l<length S. w ! l * (VT ! m ! j * VT ! l ! j))"
    by (intro sum.cong refl) (simp add: mv_transpose_nth[OF VT k w] sum_distrib_left ac_simps)
  also have "\<dots> = (\<Sum>l<length S. \<Sum>j<ncols X. w ! l * (VT ! m ! j * VT ! l ! j))"
    by (rule sum.swap)
  also have "\<dots> = (\<Sum>l<length S. w ! l * (\<Sum>j<ncols X. VT ! m ! j * VT ! l ! j))"
    by (simp add: sum_distrib_left)
  also have "\<dots> = (\<Sum>l<length S. w ! l * (if m = l then 1 else 0))"
    by (intro sum.cong refl) (simp add: orthonormal_rows_sum[OF VT thin_svd_shapes(3)[OF D] m])
  also have "\<dots> = w ! m" by (rule sum_delta_lt[OF m])
  finally show ?thesis .
qed


lemma length_fit_exact:
  assumes D: "thin_svd X U S VT" and n: "0 < length X"
  shows "length (fit_exact U S VT y l) = ncols X"
proof (cases "length S = 0")
  case True
  then have "ncols X = 0" using thin_svd_shapes(5)[OF D] n by (simp add: min_def split: if_splits)
  moreover have "VT = []" using True thin_svd_shapes(2)[OF D] by (simp add: rect_def)
  ultimately show ?thesis by (simp add: fit_exact_def)
next
  case False
  then have k: "0 < length S" by simp
  show ?thesis
    using length_transpose_rect[OF thin_svd_shapes(2)[OF D] k] by (simp add: fit_exact_def)
qed

text \<open>The fitted values at penalty 0: \<open>X b = U (U^T y)\<close> when no singular value is 0.\<close>

lemma ols_fitted:
  assumes D: "thin_svd X U S VT" and nz: "\<forall>s\<in>set S. s \<noteq> 0" and i: "i < length X"
  shows "mv X (fit_exact U S VT y 0) ! i = (\<Sum>m<length S. U ! i ! m * mv (transpose U) y ! m)"
proof -
  define c where "c = mv (transpose U) y"
  define w where "w = map2 (*) c (map (\<lambda>s. s / (s * s + 0)) S)"
  have n: "0 < length X" using i by (cases X) simp_all
  have lc: "length c = length S" unfolding c_def by (rule thin_svd_coef_length[OF D])
  then have lw: "length w = length S" by (simp add: w_def)
  have b: "fit_exact U S VT y 0 = mv (transpose VT) w"
    by (simp add: fit_exact_def w_def c_def)
  have lb: "length (mv (transpose VT) w) = ncols X"
    using length_fit_exact[OF D n, of y 0] b by simp
  have sw: "S ! m * w ! m = c ! m" if "m < length S" for m
  proof -
    have "S ! m \<in> set S" using that by simp
    with nz have "S ! m \<noteq> 0" by blast
    with that lc show ?thesis by (simp add: w_def)
  qed
  have "mv X (mv (transpose VT) w) ! i
        = (\<Sum>m<length S. U ! i ! m * S ! m * (\<Sum>j<ncols X. VT ! m ! j * mv (transpose VT) w ! j))"
    by (rule thin_svd_apply[OF D lb i])
  also have "\<dots> = (\<Sum>m<length S. U ! i ! m * (S ! m * w ! m))"
    by (intro sum.cong refl) (simp add: thin_svd_VT_V[OF D lw] mult.assoc)
  also have "\<dots> = (\<Sum>m<length S. U ! i ! m * c ! m)"
    by (intro sum.cong refl) (simp add: sw)
  finally show ?thesis by (simp add: b c_def)
qed

text \<open>The normal equations \<open>X^T (y - X b) = 0\<close>.\<close>

lemma ols_normal_equations:
  assumes D: "thin_svd X U S VT" and nz: "\<forall>s\<in>set S. s \<noteq> 0"
    and len: "length y = length X" and j: "j < ncols X"
  shows "(\<Sum>i<length X. X ! i ! j * (y ! i - mv X (fit_exact U S VT y 0) ! i)) = 0"
proof -
  define c where "c = mv (transpose U) y"
  have inner: "(\<Sum>i<length X. U ! i ! m * (y ! i - mv X (fit_exact U S VT y 0) ! i)) = 0"
    if m: "m < length S" for m
  proof -
    have n: "0 < length X" using m thin_svd_shapes(5)[OF D] by (cases X) simp_all
    have cm: "c ! m = (\<Sum>i<length X. U ! i ! m * y ! i)"
      unfolding c_def by (rule mv_transpose_nth[OF thin_svd_shapes(1)[OF D] n len m])
    have "(\<Sum>i<length X. U ! i ! m * mv X (fit_exact U S VT y 0) ! i)
          = (\<Sum>i<length X. \<Sum>l<length S. c ! l * (U ! i ! m * U ! i ! l))"
      by (intro sum.cong refl) (simp add: ols_fitted[OF D nz] c_def sum_distrib_left ac_simps)
    also have "\<dots> = (\<Sum>l<length S. \<Sum>i<length X. c ! l * (U ! i ! m * U ! i ! l))"
      by (rule sum.swap)
    also have "\<dots> = (\<Sum>l<length S. c ! l * (\<Sum>i<length X. U ! i ! m * U ! i ! l))"
      by (simp add: sum_distrib_left)
    also have "\<dots> = (\<Sum>l<length S. c ! l * (if m = l then 1 else 0))"
      by (intro sum.cong refl) (simp add: thin_svd_U_orth[OF D m])
    also have "\<dots> = c ! m" by (rule sum_delta_lt[OF m])
    finally have "(\<Sum>i<length X. U ! i ! m * mv X (fit_exact U S VT y 0) ! i) = c ! m" .
    with cm show ?thesis by (simp add: right_diff_distrib sum_subtractf)
  qed
  have "(\<Sum>i<length X. X ! i ! j * (y ! i - mv X (fit_exact U S VT y 0) ! i))
        = (\<Sum>m<length S. S ! m * VT ! m ! j
             * (\<Sum>i<length X. U ! i ! m * (y ! i - mv X (fit_exact U S VT y 0) ! i)))"
    by (rule thin_svd_apply_transposed[OF D j])
  also have "\<dots> = 0" by (simp add: inner)
  finally show ?thesis .
qed

text \<open>Residuals of any other coefficient vector, and Pythagoras.\<close>

lemma ols_pythagoras:
  fixes b' :: "real list"
  assumes D: "thin_svd X U S VT" and nz: "\<forall>s\<in>set S. s \<noteq> 0"
    and len: "length y = length X" and b': "length b' = ncols X" and n: "0 < length X"
  shows "sumsq (map2 (-) y (mv X b'))
         = sumsq (map2 (-) y (mv X (fit_exact U S VT y 0)))
           + sumsq (mv X (map2 (-) b' (fit_exact U S VT y 0)))"
proof -
  define b where "b = fit_exact U S VT y 0"
  define d where "d = map2 (-) b' b"
  define r where "r = (\<lambda>i. y ! i - mv X b ! i)"
  note X = thin_svd_shapes(6)[OF D]
  have lb: "length b = ncols X" unfolding b_def by (rule length_fit_exact[OF D n])
  have ld: "length d = ncols X" using lb b' by (simp add: d_def)
  have Xd: "mv X d ! i = mv X b' ! i - mv X b ! i" if "i < length X" for i
    using that lb b'
    by (simp add: mv_sum[OF X _ that] ld d_def left_diff_distrib right_diff_distrib sum_subtractf)
  have orth: "(\<Sum>i<length X. r i * mv X d ! i) = 0"
  proof -
    have "(\<Sum>i<length X. r i * mv X d ! i)
          = (\<Sum>i<length X. \<Sum>j<ncols X. d ! j * (X ! i ! j * r i))"
      by (intro sum.cong refl) (simp add: mv_sum[OF X ld] sum_distrib_left ac_simps)
    also have "\<dots> = (\<Sum>j<ncols X. \<Sum>i<length X. d ! j * (X ! i ! j * r i))"
      by (rule sum.swap)
    also have "\<dots> = (\<Sum>j<ncols X. d ! j * (\<Sum>i<length X. X ! i ! j * r i))"
      by (simp add: sum_distrib_left)
    also have "\<dots> = 0"
      using ols_normal_equations[OF D nz len] by (simp add: r_def b_def)
    finally show ?thesis .
  qed
  have "sumsq (map2 (-) y (mv X b')) = (\<Sum>i<length X. (y ! i - mv X b' ! i) * (y ! i - mv X b' ! i))"
    using len by (simp add: sumsq_sum)
  also have "\<dots> = (\<Sum>i<length X. r i * r i - 2 * (r i * mv X d ! i) + mv X d ! i * mv X d ! i)"
    by (intro sum.cong refl) (simp add: Xd r_def algebra_simps)
  also have "\<dots> = (\<Sum>i<length X. r i * r i) - 2 * (\<Sum>i<length X. r i * mv X d ! i)
                   + (\<Sum>i<length X. mv X d ! i * mv X d ! i)"
    by (simp add: sum.distrib sum_subtractf sum_distrib_left)
  also have "\<dots> = (\<Sum>i<length X. r i * r i) + (\<Sum>i<length X. mv X d ! i * mv X d ! i)"
    by (simp add: orth)
  also have "(\<Sum>i<length X. r i * r i) = sumsq (map2 (-) y (mv X b))"
    using len by (simp add: sumsq_sum r_def)
  also have "(\<Sum>i<length X. mv X d ! i * mv X d ! i) = sumsq (mv X d)"
    by (simp add: sumsq_sum)
  finally show ?thesis by (simp add: b_def d_def)
qed

text \<open>Full column rank leaves no singular value at 0.\<close>

lemma full_rank_singular_values:
  assumes D: "thin_svd X U S VT" and fr: "full_col_rank X"
  shows "\<forall>s\<in>set S. s \<noteq> 0"
proof (rule ccontr)
  assume "\<not> (\<forall>s\<in>set S. s \<noteq> 0)"
  then obtain l where l: "l < length S" and z: "S ! l = 0"
    by (auto simp: in_set_conv_nth)
  note VT = thin_svd_shapes(2)[OF D]
  define w where "w = VT ! l"
  have lw: "length w = ncols X" unfolding w_def by (rule rect_nth[OF VT l])
  have "mv X w ! i = 0" if i: "i < length X" for i
  proof -
    have "mv X w ! i = (\<Sum>m<length S. U ! i ! m * S ! m * (\<Sum>j<ncols X. VT ! m ! j * w ! j))"
      by (rule thin_svd_apply[OF D lw i])
    also have "\<dots> = (\<Sum>m<length S. (U ! i ! m * S ! m) * (if l = m then 1 else 0))"
      by (intro sum.cong refl)
        (simp add: w_def orthonormal_rows_sum[OF VT thin_svd_shapes(3)[OF D] _ l])
    also have "\<dots> = U ! i ! l * S ! l" by (rule sum_delta_lt[OF l])
    finally show ?thesis by (simp add: z)
  qed
  then have "\<forall>e\<in>set (mv X w). e = 0" by (auto simp: in_set_conv_nth)
  with fr lw have "\<forall>e\<in>set w. e = 0" by (simp add: full_col_rank_def)
  then have "sumsq w = 0" by (simp add: sumsq_zero_iff)
  then have "(\<Sum>j<ncols X. VT ! l ! j * VT ! l ! j) = 0"
    using lw by (simp add: sumsq_sum w_def)
  moreover have "(\<Sum>j<ncols X. VT ! l ! j * VT ! l ! j) = 1"
    using orthonormal_rows_sum[OF VT thin_svd_shapes(3)[OF D] l l] by simp
  ultimately show False by simp
qed


text \<open>Without rounding, the rounded solver is the solver of the sections above.\<close>

lemma dot_rd_exact: "dot_rd (\<lambda>a. a) a b = dot a b"
  by (simp add: dot_rd_def dot_def sum_list.eq_foldr zero_fl_def)

lemma ridge_rd_exact: "ridge_rd (\<lambda>a. a) svd x y f = ridge svd x y f"
  by (simp add: ridge_rd_def ridge_def mv_rd_def mv_def dot_rd_exact split: sum.splits)

text \<open>The rounding at 0 and below half the least subnormal value.\<close>

lemma binary64_zero: "binary64 0 = Fin 0"
  by (simp add: binary64_def)

lemma binary64_underflow:
  assumes "0 < r" and "r < 1 / 2 ^ 1075"
  shows "binary64 r = Fin 0"
proof -
  have b: "(1::real) / 2 ^ 1075 = 2 powr (- 1075)"
    by (simp add: powr_minus_divide powr_realpow[symmetric])
  have "log 2 r < log 2 (2 powr (- 1075))"
    using assms unfolding b by (subst log_less_cancel_iff) simp_all
  then have "log 2 r < - 1075" by simp
  then have "\<lfloor>log 2 r\<rfloor> < - 1075" by linarith
  then have e: "max \<lfloor>log 2 \<bar>r\<bar>\<rfloor> (- 1022) = - 1022" using assms(1) by simp
  have u: "(2::real) powr (of_int (- 1022) - 52) = 1 / 2 ^ 1074"
    by (simp add: powr_minus_divide powr_realpow[symmetric])
  have q: "0 < r / (1 / 2 ^ 1074)" "r / (1 / 2 ^ 1074) < 1 / 2"
    using assms by simp_all
  then have f: "\<lfloor>r / (1 / 2 ^ 1074)\<rfloor> = 0" by linarith
  have "round_even (r / (1 / 2 ^ 1074)) = 0"
    unfolding round_even_def Let_def f using q by simp
  then show ?thesis
    using assms(1) unfolding binary64_def e Let_def u by simp
qed

text \<open>A power of two is a value of the format up to \<open>2^1023\<close>, and inf from \<open>2^1024\<close> on.\<close>

lemma binary64_power2:
  "binary64 (2 ^ k) = (if k < 1024 then Fin (2 ^ k) else PInf)"
proof -
  have l: "log 2 \<bar>(2::real) ^ k\<bar> = real k"
    by (simp add: log_nat_power)
  have e: "max \<lfloor>log 2 \<bar>(2::real) ^ k\<bar>\<rfloor> (- 1022) = int k"
    unfolding l by simp
  define ulp :: real where "ulp = 2 powr (of_int (int k) - 52)"
  have ulp: "0 < ulp" by (simp add: ulp_def)
  have p52: "(2::real) powr 52 = 2 ^ 52"
    using powr_realpow[of 2 52] by simp
  have "(2::real) ^ k = 2 powr (52 + (of_int (int k) - 52))"
    by (simp add: powr_realpow)
  also have "\<dots> = 2 powr 52 * ulp"
    unfolding ulp_def by (rule powr_add)
  finally have k: "(2::real) ^ k = 2 ^ 52 * ulp"
    unfolding p52 .
  then have q: "(2::real) ^ k / ulp = of_int (2 ^ 52)" using ulp by simp
  have r: "round_even (of_int (2 ^ 52)) = 2 ^ 52"
    unfolding round_even_def Let_def floor_of_int by simp
  have "of_int (round_even (2 ^ k / ulp)) * ulp = of_int (2 ^ 52) * ulp"
    by (simp only: q r)
  also have "\<dots> = 2 ^ 52 * ulp" by simp
  finally have v: "of_int (round_even (2 ^ k / ulp)) * ulp = (2::real) ^ k"
    by (simp only: k)
  have b: "(2 ^ 1024 \<le> \<bar>(2::real) ^ k\<bar>) = (\<not> k < 1024)"
  proof (cases "k < 1024")
    case True
    have "(2::real) ^ k < 2 ^ 1024"
      by (rule power_strict_increasing[OF True]) simp
    with True show ?thesis by simp
  next
    case False
    then have "1024 \<le> k" by simp
    then have "(2::real) ^ 1024 \<le> 2 ^ k"
      by (rule power_increasing) simp
    with False show ?thesis by simp
  qed
  have nz: "((2::real) ^ k = 0) = False" and pos: "(0 < (2::real) ^ k) = True" by simp_all
  show ?thesis
    unfolding binary64_def e Let_def ulp_def[symmetric] v b nz pos
    by (cases "k < 1024") (simp_all only: simp_thms if_True if_False)
qed

lemma binary64_one: "binary64 1 = Fin 1"
  using binary64_power2[of 0] by simp

lemma thin_svd_tiny: "thin_svd [[1 / 2 ^ 600]] [[1]] [1 / 2 ^ 600] [[1]]"
  by (simp add: thin_svd_def Let_def rect_def ncols_def orthonormal_rows_def dot_def)

lemma full_col_rank_tiny: "full_col_rank [[1 / 2 ^ 600]]"
proof -
  have "\<forall>e\<in>set w. e = 0"
    if "length w = Suc 0" and "\<forall>e\<in>set (mv [[1 / 2 ^ 600]] w). e = 0" for w :: "real list"
  proof -
    from that(1) obtain a where w: "w = [a]"
      by (auto simp: length_Suc_conv)
    with that(2) show ?thesis by (simp add: mv_def dot_def)
  qed
  then show ?thesis by (simp add: full_col_rank_def ncols_def)
qed

lemma rnd_simps:
  "rnd (Fin 0) = Fin 0" "rnd (Fin 1) = Fin 1" "rnd PInf = PInf" "rnd NInf = NInf" "rnd NaN = NaN"
  by (simp_all add: rnd_def binary64_zero binary64_one)

text \<open>
  Claim C7 says that for every \<open>x\<close> of full column rank the solve at penalty 0 equals the
  least squares solution to within floating-point tolerance. In binary64 it does not when
  the square of a singular value leaves the range of the format. The 1 by 1 matrix
  \<open>(2^-600)\<close> has full column rank, with \<open>y = (1)\<close> the least squares solution is
  \<open>(2^600)\<close> (its residual is 0, and it is what the solve returns in exact arithmetic), and
  \<open>2^600\<close> is a value of the format; but \<open>s*s = 2^-1200\<close> rounds to 0, the weight
  \<open>s / (s*s + 0)\<close> is \<open>2^-600 / 0 = inf\<close>, and the solve returns \<open>(inf)\<close>.
\<close>

theorem ridge_zero_penalty_binary64_counterexample:
  "thin_svd [[1 / 2 ^ 600]] [[1]] [1 / 2 ^ 600] [[1]]
   \<and> svd_tab (emb [[1 / 2 ^ 600]]) = Inr (emb [[1]], map Fin [1 / 2 ^ 600], emb [[1]])
   \<and> full_col_rank [[1 / 2 ^ 600]]
   \<and> ncols [[1 / 2 ^ 600 :: real]] \<le> length [[1 / 2 ^ 600 :: real]]
   \<and> ridge svd_tab (emb [[1 / 2 ^ 600]]) (map Fin [1]) (Fin 0) = Inr [Fin (2 ^ 600)]
   \<and> map2 (-) [1] (mv [[1 / 2 ^ 600]] [2 ^ 600]) = [0 :: real]
   \<and> binary64 (2 ^ 600) = Fin (2 ^ 600)
   \<and> ridge_rd rnd svd_tab (emb [[1 / 2 ^ 600]]) (map Fin [1]) (Fin 0) = Inr [PInf]"
proof -
  define t :: real where "t = 1 / 2 ^ 600"
  have tpos: "0 < t" by (simp add: t_def)
  then have tnz: "t \<noteq> 0" by simp
  have "t * t = 1 / 2 ^ 1200"
    by (simp add: t_def power_add[symmetric])
  moreover have "(0::real) < 1 / 2 ^ 1200" by simp
  moreover have "(1::real) / 2 ^ 1200 < 1 / 2 ^ 1075"
    by (simp add: divide_strict_left_mono)
  ultimately have sq: "rnd (Fin (t * t)) = Fin 0"
    by (simp only: rnd_def fl.case binary64_underflow)
  have sv: "svd_tab (emb [[t]]) = Inr (emb [[1]], map Fin [t], emb [[1]])"
    by (simp add: svd_tab_def emb_def t_def)
  have ex: "ridge svd_tab (emb [[t]]) (map Fin [1]) (Fin 0) = Inr [Fin (2 ^ 600)]"
    unfolding ridge_def sv by (simp add: emb_def mv_def dot_def t_def)
  have res: "map2 (-) [1] (mv [[t]] [2 ^ 600]) = [0 :: real]"
    by (simp add: mv_def dot_def t_def)
  have fl: "ridge_rd rnd svd_tab (emb [[t]]) (map Fin [1]) (Fin 0) = Inr [PInf]"
    unfolding ridge_rd_def sv
    by (simp add: emb_def mv_rd_def dot_rd_def sq rnd_simps tpos tnz)
  have rep: "binary64 (2 ^ 600) = Fin (2 ^ 600)"
    by (simp only: binary64_power2) simp
  from thin_svd_tiny full_col_rank_tiny sv ex res rep fl show ?thesis
    unfolding t_def[symmetric] by (simp only: ncols_def list.case list.size) simp
qed


text \<open>
  Claim C7, amended to exact arithmetic (no rounding, no overflow, no underflow). For a
  finite \<open>x\<close> of full column rank (which forces \<open>p \<le> n\<close>), a decomposition of it and
  finite \<open>y\<close>, the solve at penalty 0 returns finite coefficients \<open>b\<close>, one for each
  column, that are the ordinary least squares solution: the residual sum of squares at
  \<open>b\<close> is at most that at any other coefficient vector, and a vector that does as well is
  \<open>b\<close>. In exact arithmetic the two are equal and not only close.
\<close>

theorem ridge_zero_penalty_is_ols:
  assumes D: "thin_svd X U S VT" and sv: "svd (emb X) = Inr (emb U, map Fin S, emb VT)"
    and len: "length y = length X" and fr: "full_col_rank X"
  shows "\<exists>b. ridge svd (emb X) (map Fin y) (Fin 0) = Inr (map Fin b) \<and> length b = ncols X \<and>
             (\<forall>b'. length b' = ncols X \<longrightarrow>
                sumsq (map2 (-) y (mv X b)) \<le> sumsq (map2 (-) y (mv X b')) \<and>
                (sumsq (map2 (-) y (mv X b')) \<le> sumsq (map2 (-) y (mv X b)) \<longrightarrow> b' = b))"
proof -
  define b where "b = fit_exact U S VT y 0"
  have nz: "\<forall>s\<in>set S. s \<noteq> 0" by (rule full_rank_singular_values[OF D fr])
  then have nz0: "\<forall>s\<in>set S. s * s + 0 \<noteq> 0" by simp
  have lenU: "length y = length U" using len thin_svd_shapes(1)[OF D] by (simp add: rect_def)
  have r: "ridge svd (emb X) (map Fin y) (Fin 0) = Inr (map Fin b)"
    unfolding b_def by (rule ridge_Fin[where svd = svd and x = "emb X", OF sv lenU nz0])
  show ?thesis
  proof (cases "length X = 0")
    case True
    then have X: "X = []" by simp
    then have p0: "ncols X = 0" by (simp add: ncols_def)
    have "length S = 0" using thin_svd_shapes(5)[OF D] True by simp
    then have "VT = []" using thin_svd_shapes(2)[OF D] by (simp add: rect_def)
    then have b0: "b = []" by (simp add: b_def fit_exact_def mv_def)
    with r p0 show ?thesis by auto
  next
    case False
    then have n: "0 < length X" by simp
    have lb: "length b = ncols X" unfolding b_def by (rule length_fit_exact[OF D n])
    have best: "sumsq (map2 (-) y (mv X b)) \<le> sumsq (map2 (-) y (mv X b')) \<and>
                (sumsq (map2 (-) y (mv X b')) \<le> sumsq (map2 (-) y (mv X b)) \<longrightarrow> b' = b)"
      if b': "length b' = ncols X" for b'
    proof -
      define d where "d = map2 (-) b' b"
      have py: "sumsq (map2 (-) y (mv X b')) = sumsq (map2 (-) y (mv X b)) + sumsq (mv X d)"
        unfolding b_def d_def by (rule ols_pythagoras[OF D nz len b' n])
      have ld: "length d = ncols X" using lb b' by (simp add: d_def)
      have "b' = b" if le: "sumsq (map2 (-) y (mv X b')) \<le> sumsq (map2 (-) y (mv X b))"
      proof -
        from le py have "sumsq (mv X d) \<le> 0" by simp
        with sumsq_nonneg[of "mv X d"] have "sumsq (mv X d) = 0" by simp
        then have "\<forall>e\<in>set (mv X d). e = 0" by (simp add: sumsq_zero_iff)
        with fr ld have z: "\<forall>e\<in>set d. e = 0" by (simp add: full_col_rank_def)
        show "b' = b"
        proof (rule nth_equalityI)
          show "length b' = length b" using lb b' by simp
        next
          fix j assume j: "j < length b'"
          then have "d ! j \<in> set d" using ld b' by simp
          with z have "d ! j = 0" by blast
          then show "b' ! j = b ! j" using j lb b' by (simp add: d_def)
        qed
      qed
      moreover have "sumsq (map2 (-) y (mv X b)) \<le> sumsq (map2 (-) y (mv X b'))"
        using py sumsq_nonneg[of "mv X d"] by simp
      ultimately show ?thesis by blast
    qed
    with r lb show ?thesis by blast
  qed
qed

lemma full_col_rank_identity2: "full_col_rank [[1, 0], [0, 1]]"
proof -
  have "\<forall>e\<in>set w. e = 0"
    if "length w = Suc (Suc 0)" and "\<forall>e\<in>set (mv [[1, 0], [0, 1]] w). e = 0" for w :: "real list"
  proof -
    from that(1) obtain a b where w: "w = [a, b]"
      by (auto simp: length_Suc_conv)
    with that(2) show ?thesis by (simp add: mv_def dot_def)
  qed
  then show ?thesis by (simp add: full_col_rank_def ncols_def)
qed

theorem ridge_zero_penalty_is_ols_witness:
  "thin_svd [[1, 0], [0, 1]] [[1, 0], [0, 1]] [1, 1] [[1, 0], [0, 1]]
   \<and> svd_tab (emb [[1, 0], [0, 1]]) = Inr (emb [[1, 0], [0, 1]], map Fin [1, 1], emb [[1, 0], [0, 1]])
   \<and> length [1/100, 0::real] = length [[1, 0], [0, 1::real]]
   \<and> full_col_rank [[1, 0], [0, 1]]
   \<and> (\<exists>b. ridge svd_tab (emb [[1, 0], [0, 1]]) (map Fin [1/100, 0]) (Fin 0) = Inr (map Fin b)
          \<and> length b = ncols [[1, 0], [0, 1::real]]
          \<and> sumsq (map2 (-) [1/100, 0] (mv [[1, 0], [0, 1]] b))
              \<le> sumsq (map2 (-) [1/100, 0] (mv [[1, 0], [0, 1]] [0, 0])))"
proof -
  have h1: "thin_svd [[1, 0], [0, 1]] [[1, 0], [0, 1]] [1, 1] [[1, 0], [0, 1]]"
    by (rule thin_svd_identity2)
  have h2: "svd_tab (emb [[1, 0], [0, 1]])
            = Inr (emb [[1, 0], [0, 1]], map Fin [1, 1], emb [[1, 0], [0, 1]])"
    by (simp add: svd_tab_def emb_def)
  have h3: "length [1/100, 0::real] = length [[1, 0], [0, 1::real]]" by simp
  have h4: "full_col_rank [[1, 0], [0, 1]]" by (rule full_col_rank_identity2)
  have h5: "length [0, 0::real] = ncols [[1, 0], [0, 1::real]]" by (simp add: ncols_def)
  from ridge_zero_penalty_is_ols[where svd = svd_tab, OF h1 h2 h3 h4] h5
  have "\<exists>b. ridge svd_tab (emb [[1, 0], [0, 1]]) (map Fin [1/100, 0]) (Fin 0) = Inr (map Fin b)
          \<and> length b = ncols [[1, 0], [0, 1::real]]
          \<and> sumsq (map2 (-) [1/100, 0] (mv [[1, 0], [0, 1]] b))
              \<le> sumsq (map2 (-) [1/100, 0] (mv [[1, 0], [0, 1]] [0, 0]))"
    by blast
  with h1 h2 h3 h4 show ?thesis by blast
qed

section \<open>The covariance and the statistic\<close>

lemma rectI: "length A = n \<Longrightarrow> (\<And>i. i < n \<Longrightarrow> length (A ! i) = k) \<Longrightarrow> rect n k A"
  by (simp add: rect_def list_all_length)

lemma rect_length: "rect n k A \<Longrightarrow> length A = n"
  by (simp add: rect_def)

lemma mat_eqI:
  assumes "rect n m A" and "rect n m B" and "\<And>i j. i < n \<Longrightarrow> j < m \<Longrightarrow> A ! i ! j = B ! i ! j"
  shows "A = B"
proof (rule nth_equalityI)
  show "length A = length B" using assms(1,2) by (simp add: rect_def)
next
  fix i assume "i < length A"
  then have i: "i < n" using assms(1) by (simp add: rect_def)
  show "A ! i = B ! i"
  proof (rule nth_equalityI)
    show "length (A ! i) = length (B ! i)"
      using rect_nth[OF assms(1) i] rect_nth[OF assms(2) i] by simp
  next
    fix j assume "j < length (A ! i)"
    then have "j < m" using rect_nth[OF assms(1) i] by simp
    then show "A ! i ! j = B ! i ! j" by (rule assms(3)[OF i])
  qed
qed

lemma transpose_entry:
  assumes "rect n k A" and "i < n" and "j < k"
  shows "transpose A ! j ! i = A ! i ! j"
proof -
  have n: "0 < n" using assms(2) by (cases n) simp_all
  show ?thesis using assms(2) by (simp add: transpose_nth[OF assms(1) n assms(3)])
qed

lemma mm_entry:
  fixes A B :: "real list list"
  assumes A: "rect n k A" and B: "rect k m B" and k: "0 < k" and i: "i < n" and j: "j < m"
  shows "mm A B ! i ! j = (\<Sum>l<k. A ! i ! l * B ! l ! j)"
proof -
  have lt: "length (transpose B) = m" by (rule length_transpose_rect[OF B k])
  have "mm A B ! i ! j = dot (A ! i) (transpose B ! j)"
    using i j lt rect_length[OF A] by (simp add: mm_def)
  also have "\<dots> = dot (A ! i) (map (\<lambda>l. B ! l ! j) [0..<k])"
    by (simp only: transpose_nth[OF B k j])
  also have "\<dots> = (\<Sum>l<k. A ! i ! l * B ! l ! j)"
    using rect_nth[OF A i] by (simp add: dot_sum)
  finally show ?thesis .
qed

lemma rect_mm:
  fixes A B :: "real list list"
  assumes A: "rect n k A" and B: "rect k m B" and k: "0 < k"
  shows "rect n m (mm A B)"
  using rect_length[OF A] length_transpose_rect[OF B k]
  by (intro rectI) (simp_all add: mm_def)

lemma rect_eye: "rect p p (np_eye p)"
  by (intro rectI) (simp_all add: np_eye_def)

lemma eye_entry: "i < p \<Longrightarrow> j < p \<Longrightarrow> np_eye p ! i ! j = (if i = j then 1 else 0)"
  by (simp add: np_eye_def)

lemma sum_delta_lt':
  fixes f :: "nat \<Rightarrow> real"
  assumes "x < k"
  shows "(\<Sum>m<k. (if m = x then 1 else 0) * f m) = f x"
proof -
  have "(\<Sum>m<k. (if m = x then 1 else 0) * f m) = (\<Sum>m<k. f m * (if x = m then 1 else 0))"
    by (intro sum.cong refl) simp
  then show ?thesis by (simp only: sum_delta_lt[OF assms])
qed

lemma mm_assoc:
  fixes A B C :: "real list list"
  assumes A: "rect p p A" and B: "rect p p B" and C: "rect p p C" and p: "0 < p"
  shows "mm (mm A B) C = mm A (mm B C)"
proof (rule mat_eqI)
  show "rect p p (mm (mm A B) C)" by (rule rect_mm[OF rect_mm[OF A B p] C p])
  show "rect p p (mm A (mm B C))" by (rule rect_mm[OF A rect_mm[OF B C p] p])
next
  fix i j assume i: "i < p" and j: "j < p"
  have "mm (mm A B) C ! i ! j = (\<Sum>l<p. (\<Sum>m<p. A ! i ! m * B ! m ! l) * C ! l ! j)"
    unfolding mm_entry[OF rect_mm[OF A B p] C p i j]
    by (intro sum.cong refl) (simp add: mm_entry[OF A B p i])
  also have "\<dots> = (\<Sum>l<p. \<Sum>m<p. A ! i ! m * (B ! m ! l * C ! l ! j))"
    by (simp add: sum_distrib_right mult.assoc)
  also have "\<dots> = (\<Sum>m<p. \<Sum>l<p. A ! i ! m * (B ! m ! l * C ! l ! j))"
    by (rule sum.swap)
  also have "\<dots> = (\<Sum>m<p. A ! i ! m * (\<Sum>l<p. B ! m ! l * C ! l ! j))"
    by (simp add: sum_distrib_left)
  also have "\<dots> = mm A (mm B C) ! i ! j"
    unfolding mm_entry[OF A rect_mm[OF B C p] p i j]
    by (intro sum.cong refl) (simp add: mm_entry[OF B C p _ j])
  finally show "mm (mm A B) C ! i ! j = mm A (mm B C) ! i ! j" .
qed

lemma mm_eye_left:
  fixes A :: "real list list"
  assumes A: "rect p p A" and p: "0 < p"
  shows "mm (np_eye p) A = A"
proof (rule mat_eqI)
  show "rect p p (mm (np_eye p) A)" by (rule rect_mm[OF rect_eye A p])
  show "rect p p A" by (rule A)
next
  fix i j assume i: "i < p" and j: "j < p"
  have "mm (np_eye p) A ! i ! j = (\<Sum>l<p. (if l = i then 1 else 0) * A ! l ! j)"
    unfolding mm_entry[OF rect_eye A p i j]
    by (intro sum.cong refl) (auto simp: eye_entry[OF i])
  also have "\<dots> = A ! i ! j" by (rule sum_delta_lt'[OF i])
  finally show "mm (np_eye p) A ! i ! j = A ! i ! j" .
qed

lemma mm_eye_right:
  fixes A :: "real list list"
  assumes A: "rect p p A" and p: "0 < p"
  shows "mm A (np_eye p) = A"
proof (rule mat_eqI)
  show "rect p p (mm A (np_eye p))" by (rule rect_mm[OF A rect_eye p])
  show "rect p p A" by (rule A)
next
  fix i j assume i: "i < p" and j: "j < p"
  have "mm A (np_eye p) ! i ! j = (\<Sum>l<p. A ! i ! l * (if j = l then 1 else 0))"
    unfolding mm_entry[OF A rect_eye p i j]
    by (intro sum.cong refl) (auto simp: eye_entry[OF _ j])
  also have "\<dots> = A ! i ! j" by (rule sum_delta_lt[OF j])
  finally show "mm A (np_eye p) ! i ! j = A ! i ! j" .
qed

lemma transpose_mm:
  fixes A B :: "real list list"
  assumes A: "rect p p A" and B: "rect p p B" and p: "0 < p"
  shows "transpose (mm A B) = mm (transpose B) (transpose A)"
proof (rule mat_eqI)
  show "rect p p (transpose (mm A B))" by (rule rect_transpose[OF rect_mm[OF A B p] p])
  show "rect p p (mm (transpose B) (transpose A))"
    by (rule rect_mm[OF rect_transpose[OF B p] rect_transpose[OF A p] p])
next
  fix i j assume i: "i < p" and j: "j < p"
  have "transpose (mm A B) ! i ! j = mm A B ! j ! i"
    by (rule transpose_entry[OF rect_mm[OF A B p] j i])
  also have "\<dots> = (\<Sum>l<p. A ! j ! l * B ! l ! i)" by (rule mm_entry[OF A B p j i])
  also have "\<dots> = (\<Sum>l<p. transpose B ! i ! l * transpose A ! l ! j)"
    by (intro sum.cong refl) (simp add: transpose_entry[OF B _ i] transpose_entry[OF A j])
  also have "\<dots> = mm (transpose B) (transpose A) ! i ! j"
    by (rule mm_entry[OF rect_transpose[OF B p] rect_transpose[OF A p] p i j, symmetric])
  finally show "transpose (mm A B) ! i ! j = mm (transpose B) (transpose A) ! i ! j" .
qed

lemma mv_mm:
  fixes A B :: "real list list"
  assumes A: "rect p p A" and B: "rect p p B" and p: "0 < p" and z: "length z = p"
  shows "mv (mm A B) z = mv A (mv B z)"
proof (rule nth_equalityI)
  show "length (mv (mm A B) z) = length (mv A (mv B z))"
    using rect_length[OF rect_mm[OF A B p]] rect_length[OF A] by simp
next
  fix i assume "i < length (mv (mm A B) z)"
  then have i: "i < p" using rect_length[OF rect_mm[OF A B p]] by simp
  have lBz: "length (mv B z) = p" using rect_length[OF B] by simp
  have "mv (mm A B) z ! i = (\<Sum>j<p. (\<Sum>l<p. A ! i ! l * B ! l ! j) * z ! j)"
    unfolding mv_sum[OF rect_mm[OF A B p] z i]
    by (intro sum.cong refl) (simp add: mm_entry[OF A B p i])
  also have "\<dots> = (\<Sum>j<p. \<Sum>l<p. A ! i ! l * (B ! l ! j * z ! j))"
    by (simp add: sum_distrib_right mult.assoc)
  also have "\<dots> = (\<Sum>l<p. \<Sum>j<p. A ! i ! l * (B ! l ! j * z ! j))"
    by (rule sum.swap)
  also have "\<dots> = (\<Sum>l<p. A ! i ! l * (\<Sum>j<p. B ! l ! j * z ! j))"
    by (simp add: sum_distrib_left)
  also have "\<dots> = mv A (mv B z) ! i"
    unfolding mv_sum[OF A lBz i]
    by (intro sum.cong refl) (simp add: mv_sum[OF B z])
  finally show "mv (mm A B) z ! i = mv A (mv B z) ! i" .
qed

lemma mv_eye:
  fixes z :: "real list"
  assumes z: "length z = p"
  shows "mv (np_eye p) z = z"
proof (rule nth_equalityI)
  show "length (mv (np_eye p) z) = length z" using z by (simp add: np_eye_def)
next
  fix i assume "i < length (mv (np_eye p) z)"
  then have i: "i < p" by (simp add: np_eye_def)
  have "mv (np_eye p) z ! i = (\<Sum>j<p. (if j = i then 1 else 0) * z ! j)"
    unfolding mv_sum[OF rect_eye z i]
    by (intro sum.cong refl) (auto simp: eye_entry[OF i])
  also have "\<dots> = z ! i" by (rule sum_delta_lt'[OF i])
  finally show "mv (np_eye p) z ! i = z ! i" .
qed


lemma add_Fin: "map2 (+) (map Fin a) (map Fin b) = map Fin (map2 (+) a b)"
  by (simp only: map2_maps map_map2 plus_fl.simps)

lemma madd_emb: "madd (emb A) (emb B) = emb (madd A B)"
  by (induction A B rule: list_induct2') (simp_all add: madd_def emb_def add_Fin)

lemma smul_emb: "smul (Fin c) (emb A) = emb (smul c A)"
  by (simp add: smul_def emb_def)

lemma eye_emb: "np_eye q = emb (np_eye q)"
  by (simp add: np_eye_def emb_def zero_fl_def one_fl_def)

lemma madd_entry:
  fixes A B :: "real list list"
  assumes "rect n m A" and "rect n m B" and "i < n" and "j < m"
  shows "madd A B ! i ! j = A ! i ! j + B ! i ! j"
  using assms rect_nth[OF assms(1,3)] rect_nth[OF assms(2,3)]
  by (simp add: madd_def rect_def)

lemma rect_madd:
  fixes A B :: "real list list"
  assumes "rect n m A" and "rect n m B"
  shows "rect n m (madd A B)"
proof (rule rectI)
  show "length (madd A B) = n" using assms by (simp add: madd_def rect_def)
next
  fix i assume i: "i < n"
  then show "length (madd A B ! i) = m"
    using rect_nth[OF assms(1) i] rect_nth[OF assms(2) i] rect_length[OF assms(1)]
      rect_length[OF assms(2)]
    by (simp add: madd_def)
qed

lemma smul_entry:
  fixes A :: "real list list"
  assumes "rect n m A" and "i < n" and "j < m"
  shows "smul c A ! i ! j = c * A ! i ! j"
  using assms rect_nth[OF assms(1,2)] by (simp add: smul_def rect_def)

lemma rect_smul:
  fixes A :: "real list list"
  assumes "rect n m A"
  shows "rect n m (smul c A)"
  using assms by (simp add: smul_def rect_def list_all_length)

lemma symmetricI:
  fixes A :: "real list list"
  assumes A: "rect p p A" and p: "0 < p" and s: "\<And>i j. i < p \<Longrightarrow> j < p \<Longrightarrow> A ! i ! j = A ! j ! i"
  shows "transpose A = A"
proof (rule mat_eqI)
  show "rect p p (transpose A)" by (rule rect_transpose[OF A p])
  show "rect p p A" by (rule A)
next
  fix i j assume i: "i < p" and j: "j < p"
  show "transpose A ! i ! j = A ! i ! j"
    using transpose_entry[OF A j i] s[OF i j] by simp
qed

lemma symmetricD:
  fixes A :: "real list list"
  assumes A: "rect p p A" and s: "transpose A = A" and i: "i < p" and j: "j < p"
  shows "A ! i ! j = A ! j ! i"
  using transpose_entry[OF A j i] s by simp

lemma transpose_eye: "0 < p \<Longrightarrow> transpose (np_eye p :: real list list) = np_eye p"
  by (rule symmetricI[OF rect_eye]) (auto simp: eye_entry)


text \<open>A solution of \<open>H S = B\<close> is \<open>Hinv B\<close>.\<close>

lemma solve_unique:
  fixes H Hinv S B :: "real list list"
  assumes p: "0 < p" and H: "rect p p H" and Hinv: "rect p p Hinv" and S: "rect p p S"
    and left: "mm Hinv H = np_eye p" and eq: "mm H S = B"
  shows "S = mm Hinv B"
proof -
  have "mm Hinv B = mm Hinv (mm H S)" by (simp add: eq)
  also have "\<dots> = mm (mm Hinv H) S" by (rule mm_assoc[OF Hinv H S p, symmetric])
  also have "\<dots> = S" unfolding left by (rule mm_eye_left[OF S p])
  finally show ?thesis by simp
qed

text \<open>The inverse of a symmetric matrix is symmetric.\<close>

lemma inverse_symmetric:
  fixes H Hinv :: "real list list"
  assumes p: "0 < p" and H: "rect p p H" and Hinv: "rect p p Hinv"
    and sym: "transpose H = H"
    and right: "mm H Hinv = np_eye p"
  shows "transpose Hinv = Hinv"
proof -
  note T = rect_transpose[OF Hinv p]
  have "mm (transpose Hinv) H = mm (transpose Hinv) (transpose H)" by (simp add: sym)
  also have "\<dots> = transpose (mm H Hinv)" by (rule transpose_mm[OF H Hinv p, symmetric])
  also have "\<dots> = np_eye p" unfolding right by (rule transpose_eye[OF p])
  finally have l: "mm (transpose Hinv) H = np_eye p" .
  have "transpose Hinv = mm (transpose Hinv) (np_eye p)" by (rule mm_eye_right[OF T p, symmetric])
  also have "\<dots> = mm (transpose Hinv) (mm H Hinv)" by (simp add: right)
  also have "\<dots> = mm (mm (transpose Hinv) H) Hinv" by (rule mm_assoc[OF T H Hinv p, symmetric])
  also have "\<dots> = Hinv" unfolding l by (rule mm_eye_left[OF Hinv p])
  finally show ?thesis .
qed

text \<open>The nested solves give \<open>Hinv G Hinv\<close>.\<close>

lemma nested_solves:
  fixes G H Hinv S1 S2 :: "real list list"
  assumes p: "0 < p" and G: "rect p p G" and H: "rect p p H" and Hinv: "rect p p Hinv"
    and S1: "rect p p S1" and S2: "rect p p S2"
    and symG: "transpose G = G" and symH: "transpose H = H"
    and right: "mm H Hinv = np_eye p" and left: "mm Hinv H = np_eye p"
    and e1: "mm H S1 = G" and e2: "mm H S2 = transpose S1"
  shows "S2 = mm Hinv (mm G Hinv)"
proof -
  have s1: "S1 = mm Hinv G" by (rule solve_unique[OF p H Hinv S1 left e1])
  have "transpose S1 = mm (transpose G) (transpose Hinv)"
    unfolding s1 by (rule transpose_mm[OF Hinv G p])
  also have "\<dots> = mm G Hinv"
    by (simp add: symG inverse_symmetric[OF p H Hinv symH right])
  finally have t: "transpose S1 = mm G Hinv" .
  have "S2 = mm Hinv (transpose S1)" by (rule solve_unique[OF p H Hinv S2 left e2])
  then show ?thesis by (simp add: t)
qed

lemma solve_v_unique:
  fixes V Vinv :: "real list list" and z b :: "real list"
  assumes p: "0 < p" and V: "rect p p V" and Vinv: "rect p p Vinv" and z: "length z = p"
    and left: "mm Vinv V = np_eye p" and eq: "mv V z = b"
  shows "z = mv Vinv b"
proof -
  have "mv Vinv b = mv Vinv (mv V z)" by (simp add: eq)
  also have "\<dots> = mv (mm Vinv V) z" by (rule mv_mm[OF Vinv V p z, symmetric])
  also have "\<dots> = z" unfolding left by (rule mv_eye[OF z])
  finally show ?thesis by simp
qed

lemma ridge_H_symmetric:
  fixes G :: "real list list"
  assumes p: "0 < p" and G: "rect p p G" and symG: "transpose G = G"
  shows "rect p p (madd G (smul l (np_eye p)))"
    and "transpose (madd G (smul l (np_eye p))) = madd G (smul l (np_eye p))"
proof -
  have E: "rect p p (smul l (np_eye p :: real list list))" by (rule rect_smul[OF rect_eye])
  show R: "rect p p (madd G (smul l (np_eye p)))" by (rule rect_madd[OF G E])
  show "transpose (madd G (smul l (np_eye p))) = madd G (smul l (np_eye p))"
  proof (rule symmetricI[OF R p])
    fix i j assume i: "i < p" and j: "j < p"
    show "madd G (smul l (np_eye p)) ! i ! j = madd G (smul l (np_eye p)) ! j ! i"
      using i j symmetricD[OF G symG i j]
      by (simp add: madd_entry[OF G E] smul_entry[OF rect_eye] eye_entry)
  qed
qed

text \<open>
  Claim C9 says that for every fitted \<open>(b, lam, s2)\<close> with \<open>H = XtX + lam I\<close> invertible
  the computation returns the statistic. The statistic needs the solve with
  \<open>V = s2 Hinv XtX Hinv\<close>, and \<open>V\<close> is singular when \<open>s2\<close> is 0 although \<open>H\<close> is
  invertible. \<open>tuneridge\<close> returns such a triple: for the 1 by 1 matrix \<open>x = (1)\<close>,
  \<open>y = (1)\<close> and \<open>r2 = 0.5\<close> it returns \<open>((1), 0, 0)\<close>. With \<open>XtX = x^T x = (1)\<close>,
  \<open>H = (1) + 0 (1) = (1)\<close> is its own inverse, \<open>V = 0 (1) = (0)\<close>, and the solve with
  \<open>V\<close> raises LinAlgError: the computation returns no statistic.
\<close>

theorem significance_singular_counterexample:
  "tuneridge svd_tab [[Fin 1]] [Fin 1] (PyFloat (Fin (1/2))) = Inr ([Fin 1], Fin 0, Fin 0)
   \<and> mm (transpose [[1]]) [[1::real]] = [[1]]
   \<and> madd [[1]] (smul 0 (np_eye 1)) = [[1::real]] \<and> mm [[1]] [[1::real]] = np_eye 1
   \<and> significance solve_1x1 solve_v_1x1 (\<lambda>d c. c) [[Fin 1]] 1 [Fin 1] (Fin 0) (Fin 0)
       = Inl LinAlgError"
proof -
  have "tuneridge svd_tab [[Fin 1]] [Fin 1] (PyFloat (Fin (1/2))) = Inr ([Fin 1], Fin 0, Fin 0)"
    by (simp add: run_defs tune_loop_numeral)
  moreover have "mm (transpose [[1]]) [[1::real]] = [[1]]
   \<and> madd [[1]] (smul 0 (np_eye 1)) = [[1::real]] \<and> mm [[1]] [[1::real]] = np_eye 1
   \<and> significance solve_1x1 solve_v_1x1 (\<lambda>d c. c) [[Fin 1]] 1 [Fin 1] (Fin 0) (Fin 0)
       = Inl LinAlgError"
    by (simp add: significance_def madd_def smul_def np_eye_def mm_def dot_def
      zero_fl_def one_fl_def)
  ultimately show ?thesis by (rule conjI)
qed

text \<open>
  Claim C9, amended by the invertibility of \<open>V\<close>, in exact arithmetic (no rounding, no
  overflow, no underflow). For finite \<open>(b, lam, s2)\<close> and a symmetric \<open>p\<close> by \<open>p\<close> matrix
  \<open>G = XtX\<close>, with \<open>H = G + lam I\<close> invertible (inverse \<open>Hinv\<close>) and the two solves with
  \<open>H\<close> returning solutions of their systems: the matrix \<open>V\<close> the code computes by the
  nested solves is \<open>s2 Hinv G Hinv\<close>; when \<open>V\<close> is invertible (inverse \<open>Vinv\<close>) and the
  solve with \<open>V\<close> returns the solution of its system, the computation returns the
  statistic \<open>b^T Vinv b\<close> and the p-value \<open>1 - F(statistic)\<close>, \<open>F\<close> the distribution
  function at \<open>p = len(b)\<close> degrees of freedom; and when the solve with \<open>V\<close> raises, that
  exception is the outcome and there is no statistic. (The example that follows the
  theorem takes its triple from a run of \<open>tuneridge\<close>: the column \<open>x = (1 0)\<close> with
  \<open>y = (1, 1)\<close> and \<open>r2 = 0.5\<close> gives \<open>((1), 0, 1/5)\<close>, and the statistic is 5.)
\<close>

theorem significance_statistic:
  fixes G Hinv S1 S2 :: "real list list" and b :: "real list" and l s2 :: real
  assumes p: "0 < p" and G: "rect p p G" and symG: "transpose G = G" and b: "length b = p"
    and Hinv: "rect p p Hinv"
    and right: "mm (madd G (smul l (np_eye p))) Hinv = np_eye p"
    and left: "mm Hinv (madd G (smul l (np_eye p))) = np_eye p"
    and c1: "solve (emb (madd G (smul l (np_eye p)))) (emb G) = Inr (emb S1)"
    and S1: "rect p p S1" and e1: "mm (madd G (smul l (np_eye p))) S1 = G"
    and c2: "solve (emb (madd G (smul l (np_eye p)))) (emb (transpose S1)) = Inr (emb S2)"
    and S2: "rect p p S2" and e2: "mm (madd G (smul l (np_eye p))) S2 = transpose S1"
  shows "smul s2 S2 = smul s2 (mm Hinv (mm G Hinv))
       \<and> (\<forall>z Vinv.
             solve_v (emb (smul s2 S2)) (map Fin b) = Inr (map Fin z) \<and> length z = p
             \<and> mv (smul s2 S2) z = b \<and> rect p p Vinv \<and> mm Vinv (smul s2 S2) = np_eye p
             \<longrightarrow> significance solve solve_v chi2_cdf (emb G) p (map Fin b) (Fin l) (Fin s2)
                   = Inr (Fin (dot b (mv Vinv b)), Fin 1 - chi2_cdf p (Fin (dot b (mv Vinv b)))))
       \<and> (\<forall>e. solve_v (emb (smul s2 S2)) (map Fin b) = Inl e
             \<longrightarrow> significance solve solve_v chi2_cdf (emb G) p (map Fin b) (Fin l) (Fin s2) = Inl e)"
proof (intro conjI allI impI)
  define H where "H = madd G (smul l (np_eye p))"
  have H: "rect p p H" and symH: "transpose H = H"
    unfolding H_def by (rule ridge_H_symmetric[OF p G symG])+
  have s2eq: "S2 = mm Hinv (mm G Hinv)"
    by (rule nested_solves[OF p G H Hinv S1 S2 symG symH right[folded H_def] left[folded H_def]
          e1[folded H_def] e2[folded H_def]])
  then show "smul s2 S2 = smul s2 (mm Hinv (mm G Hinv))" by simp
  have Hfl: "madd (emb G) (smul (Fin l) (np_eye p)) = emb H"
    unfolding H_def by (subst eye_emb) (simp only: smul_emb madd_emb)
  {
    fix z :: "real list" and Vinv :: "real list list"
    assume a: "solve_v (emb (smul s2 S2)) (map Fin b) = Inr (map Fin z) \<and> length z = p
             \<and> mv (smul s2 S2) z = b \<and> rect p p Vinv \<and> mm Vinv (smul s2 S2) = np_eye p"
    then have c3: "solve_v (emb (smul s2 S2)) (map Fin b) = Inr (map Fin z)"
      and z: "length z = p" and e3: "mv (smul s2 S2) z = b"
      and Vinv: "rect p p Vinv" and vleft: "mm Vinv (smul s2 S2) = np_eye p"
      by simp_all
    have zeq: "z = mv Vinv b"
      by (rule solve_v_unique[OF p rect_smul[OF S2] Vinv z vleft e3])
    have "significance solve solve_v chi2_cdf (emb G) p (map Fin b) (Fin l) (Fin s2)
          = Inr (Fin (dot b z), Fin 1 - chi2_cdf p (Fin (dot b z)))"
      unfolding significance_def Let_def Hfl
      using c1[folded H_def] c2[folded H_def] c3 b
      by (simp add: transpose_emb smul_emb dot_Fin)
    then show "significance solve solve_v chi2_cdf (emb G) p (map Fin b) (Fin l) (Fin s2)
          = Inr (Fin (dot b (mv Vinv b)), Fin 1 - chi2_cdf p (Fin (dot b (mv Vinv b))))"
      using zeq by simp
  }
  {
    fix e
    assume c3: "solve_v (emb (smul s2 S2)) (map Fin b) = Inl e"
    show "significance solve solve_v chi2_cdf (emb G) p (map Fin b) (Fin l) (Fin s2) = Inl e"
      unfolding significance_def Let_def Hfl
      using c1[folded H_def] c2[folded H_def] c3
      by (simp add: transpose_emb smul_emb)
  }
qed


theorem significance_statistic_witness:
  "tuneridge svd_tab [[Fin 1], [Fin 0]] [Fin 1, Fin 1] (PyFloat (Fin (1/2)))
     = Inr (map Fin [1], Fin 0, Fin (1/5))
   \<and> mm (transpose [[1], [0]]) [[1], [0::real]] = [[1]]
   \<and> (0::nat) < 1 \<and> rect 1 1 [[1::real]] \<and> transpose [[1::real]] = [[1]] \<and> length [1::real] = 1
   \<and> mm (madd [[1]] (smul 0 (np_eye 1))) [[1::real]] = np_eye 1
   \<and> mm [[1::real]] (madd [[1]] (smul 0 (np_eye 1))) = np_eye 1
   \<and> solve_1x1 (emb (madd [[1]] (smul 0 (np_eye 1)))) (emb [[1]]) = Inr (emb [[1]])
   \<and> mm (madd [[1]] (smul 0 (np_eye 1))) [[1::real]] = [[1]]
   \<and> solve_1x1 (emb (madd [[1]] (smul 0 (np_eye 1)))) (emb (transpose [[1]])) = Inr (emb [[1]])
   \<and> mm (madd [[1]] (smul 0 (np_eye 1))) [[1::real]] = transpose [[1]]
   \<and> solve_v_1x1 (emb (smul (1/5) [[1]])) (map Fin [1]) = Inr (map Fin [5])
   \<and> mv (smul (1/5) [[1::real]]) [5] = [1]
   \<and> mm [[5::real]] (smul (1/5) [[1]]) = np_eye 1
   \<and> significance solve_1x1 solve_v_1x1 (\<lambda>d c. c) (emb [[1]]) 1 (map Fin [1]) (Fin 0) (Fin (1/5))
       = Inr (Fin (dot [1] (mv [[5]] [1])), Fin 1 - Fin (dot [1] (mv [[5]] [1])))
   \<and> dot [1] (mv [[5]] [1]) = (5::real)"
proof -
  note ev = madd_def smul_def np_eye_def mm_def mv_def dot_def emb_def rect_def
  have run: "tuneridge svd_tab [[Fin 1], [Fin 0]] [Fin 1, Fin 1] (PyFloat (Fin (1/2)))
     = Inr (map Fin [1], Fin 0, Fin (1/5))"
    by (simp add: run_defs tune_loop_numeral)
  have xtx: "mm (transpose [[1], [0]]) [[1], [0::real]] = [[1]]" by (simp add: ev)
  have p: "(0::nat) < 1" by simp
  have G: "rect 1 1 [[1::real]]" by (simp add: ev)
  have symG: "transpose [[1::real]] = [[1]]" by simp
  have b: "length [1::real] = 1" by simp
  have right: "mm (madd [[1]] (smul 0 (np_eye 1))) [[1::real]] = np_eye 1" by (simp add: ev)
  have left: "mm [[1::real]] (madd [[1]] (smul 0 (np_eye 1))) = np_eye 1" by (simp add: ev)
  have c1: "solve_1x1 (emb (madd [[1]] (smul 0 (np_eye 1)))) (emb [[1]]) = Inr (emb [[1]])"
    by (simp add: ev)
  have e1: "mm (madd [[1]] (smul 0 (np_eye 1))) [[1::real]] = [[1]]" by (simp add: ev)
  have c2: "solve_1x1 (emb (madd [[1]] (smul 0 (np_eye 1)))) (emb (transpose [[1]]))
            = Inr (emb [[1]])"
    by (simp add: ev)
  have e2: "mm (madd [[1]] (smul 0 (np_eye 1))) [[1::real]] = transpose [[1]]"
    by (simp add: ev)
  have c3: "solve_v_1x1 (emb (smul (1/5) [[1]])) (map Fin [1]) = Inr (map Fin [5])"
    by (simp add: ev)
  have z: "length [5::real] = 1" by simp
  have e3: "mv (smul (1/5) [[1::real]]) [5] = [1]" by (simp add: ev)
  have Vinv: "rect 1 1 [[5::real]]" by (simp add: ev)
  have vleft: "mm [[5::real]] (smul (1/5) [[1]]) = np_eye 1" by (simp add: ev)
  have cs: "dot [1] (mv [[5]] [1]) = (5::real)" by (simp add: ev)
  from significance_statistic[where solve = solve_1x1 and solve_v = solve_v_1x1
      and ?chi2_cdf = "\<lambda>d c. c",
      OF p G symG b G right left c1 G e1 c2 G e2] c3 z e3 Vinv vleft
  have "significance solve_1x1 solve_v_1x1 (\<lambda>d c. c) (emb [[1]]) 1 (map Fin [1]) (Fin 0) (Fin (1/5))
       = Inr (Fin (dot [1] (mv [[5]] [1])), Fin 1 - Fin (dot [1] (mv [[5]] [1])))"
    by blast
  with run xtx p G symG b right left c1 e1 c2 e2 c3 e3 vleft cs show ?thesis by blast
qed


end
